theory Spec2Isabelle
  imports Main "HOL-Library.AList" "HOL-Library.Sublist"
begin

section \<open>Values of the program\<close>

text \<open>
  The extractor works on deserialised JSON: \<^verbatim>\<open>None\<close>, booleans, integers, strings,
  lists and dictionaries.  A dictionary is an association list in insertion order with
  distinct keys (what \<^verbatim>\<open>response.json()\<close> builds); lookup is \<open>map_of\<close>, item
  assignment is \<open>AList.update\<close> and \<^verbatim>\<open>del\<close> is \<open>AList.delete\<close>.  JSON numbers
  with a fraction are not represented: the program never computes with a number of a
  record.
\<close>

datatype json =
    JNull
  | JBool bool
  | JInt int
  | JStr string
  | JList "json list"
  | JObj "(string \<times> json) list"

type_synonym dict = "(string \<times> json) list"

text \<open>The exceptions the code can raise, as values.\<close>

datatype error =
    KeyError string
  | IndexError
  | TypeError
  | ValueError
  | AttributeError
  | AuthenticationError
  | NotFoundError string
  | Exception string

subsection \<open>Python's operations on these values\<close>

text \<open>
  \<^verbatim>\<open>a == b\<close>: by value; dictionaries compare without regard to the order of their
  keys, and \<^verbatim>\<open>True == 1\<close>.
\<close>

fun py_eq :: "json \<Rightarrow> json \<Rightarrow> bool" where
  "py_eq JNull JNull = True"
| "py_eq (JBool a) (JBool b) = (a = b)"
| "py_eq (JBool a) (JInt b) = ((if a then 1 else 0) = b)"
| "py_eq (JInt a) (JBool b) = (a = (if b then 1 else 0))"
| "py_eq (JInt a) (JInt b) = (a = b)"
| "py_eq (JStr a) (JStr b) = (a = b)"
| "py_eq (JList a) (JList b) = list_all2 py_eq a b"
| "py_eq (JObj a) (JObj b) =
     (length a = length b \<and>
      list_all (\<lambda>(k, v). list_ex (\<lambda>(k', w). k' = k \<and> py_eq v w) b) a)"
| "py_eq _ _ = False"

text \<open>\<^verbatim>\<open>bool(v)\<close>, as \<^verbatim>\<open>not v\<close> and \<^verbatim>\<open>if v\<close> read it.\<close>

fun truthy :: "json \<Rightarrow> bool" where
  "truthy JNull = False"
| "truthy (JBool b) = b"
| "truthy (JInt i) = (i \<noteq> 0)"
| "truthy (JStr s) = (s \<noteq> [])"
| "truthy (JList xs) = (xs \<noteq> [])"
| "truthy (JObj d) = (d \<noteq> [])"

text \<open>\<^verbatim>\<open>key in d\<close> for a dictionary \<open>d\<close>.\<close>

definition has_key :: "string \<Rightarrow> dict \<Rightarrow> bool" where
  "has_key k d = (map_of d k \<noteq> None)"

text \<open>
  \<^verbatim>\<open>k in v\<close> for a string \<open>k\<close> and any value: a key of a dictionary, an element of
  a list, a substring of a string; \<^verbatim>\<open>TypeError\<close> on anything else.
\<close>

fun py_in :: "string \<Rightarrow> json \<Rightarrow> error + bool" where
  "py_in k (JObj d) = Inr (has_key k d)"
| "py_in k (JList xs) = Inr (list_ex (py_eq (JStr k)) xs)"
| "py_in k (JStr s) = Inr (sublist k s)"
| "py_in k _ = Inl TypeError"

text \<open>
  \<^verbatim>\<open>v[k]\<close> for a string \<open>k\<close>: \<^verbatim>\<open>KeyError\<close> on a dictionary without the key,
  \<^verbatim>\<open>TypeError\<close> on every other value (a list or a string takes no string index,
  the rest is not subscriptable).
\<close>

fun getitem :: "json \<Rightarrow> string \<Rightarrow> error + json" where
  "getitem (JObj d) k = (case map_of d k of None \<Rightarrow> Inl (KeyError k) | Some v \<Rightarrow> Inr v)"
| "getitem _ k = Inl TypeError"

text \<open>\<^verbatim>\<open>d[k]\<close> on a record, which is a dictionary.\<close>

definition lookup :: "dict \<Rightarrow> string \<Rightarrow> error + json" where
  "lookup d k = (case map_of d k of None \<Rightarrow> Inl (KeyError k) | Some v \<Rightarrow> Inr v)"

text \<open>\<^verbatim>\<open>d[k] = v\<close>.\<close>

definition setitem :: "string \<Rightarrow> json \<Rightarrow> dict \<Rightarrow> dict" where
  "setitem k v d = AList.update k v d"

text \<open>\<^verbatim>\<open>xs[i]\<close> for a list and an index that is not negative.\<close>

definition subscript :: "'a list \<Rightarrow> nat \<Rightarrow> error + 'a" where
  "subscript xs i = (if i < length xs then Inr (xs ! i) else Inl IndexError)"

text \<open>
  \<^verbatim>\<open>s.rsplit(c, 1)\<close> for a one-character separator: the string is cut at the last
  occurrence of \<open>c\<close>; without an occurrence the result is the one-element list of \<open>s\<close>.
\<close>

definition rsplit1 :: "char \<Rightarrow> string \<Rightarrow> string list" where
  "rsplit1 c s =
     (if c \<in> set s
      then [rev (tl (dropWhile (\<lambda>x. x \<noteq> c) (rev s))), rev (takeWhile (\<lambda>x. x \<noteq> c) (rev s))]
      else [s])"

text \<open>
  \<^verbatim>\<open>v.rsplit("-", 1)\<close>: only a string has the method, every other value raises
  \<^verbatim>\<open>AttributeError\<close>.
\<close>

fun rsplit_hyphen :: "json \<Rightarrow> error + string list" where
  "rsplit_hyphen (JStr s) = Inr (rsplit1 (CHR ''-'') s)"
| "rsplit_hyphen _ = Inl AttributeError"

text \<open>Iterating a value: the elements of a list, the characters of a string, the keys
  of a dictionary; nothing else is iterable.\<close>

fun py_iter :: "json \<Rightarrow> error + json list" where
  "py_iter (JList xs) = Inr xs"
| "py_iter (JStr s) = Inr (map (\<lambda>c. JStr [c]) s)"
| "py_iter (JObj d) = Inr (map (\<lambda>kv. JStr (fst kv)) d)"
| "py_iter _ = Inl TypeError"

section \<open>The API client: \<^verbatim>\<open>DeviantartAPI\<close>\<close>

subsection \<open>The server, the session and the client's state\<close>

text \<open>
  A response of the HTTP session: its status, its body as text, and what
  \<^verbatim>\<open>response.json()\<close> returns (\<open>None\<close> when the body is not JSON and the call raises
  \<^verbatim>\<open>ValueError\<close>).
\<close>

record response =
  status_code :: int
  resp_text :: string
  resp_json :: "json option"

text \<open>
  The server is the environment.  \<open>http_get srv n url params auth\<close> answers the
  \<open>n\<close>-th GET request of the session (counted from 0) for \<open>url\<close> with the query
  \<open>params\<close> and the \<^verbatim>\<open>Authorization\<close> header \<open>auth\<close>; \<open>http_post srv n url data\<close>
  answers the \<open>n\<close>-th POST request.  An answer may depend on the request and on how many
  came before it.
\<close>

record server =
  http_get :: "nat \<Rightarrow> string \<Rightarrow> dict option \<Rightarrow> string option \<Rightarrow> response"
  http_post :: "nat \<Rightarrow> string \<Rightarrow> dict \<Rightarrow> response"

text \<open>What the client writes to its logger.\<close>

datatype log_entry =
    Debug_rate_limit nat
  | Debug_http_status int nat
  | Error_unexpected_response json
  | Info_skipping_journal

text \<open>
  The state of one \<^verbatim>\<open>DeviantartAPI\<close> object with its session, the clock of
  \<^verbatim>\<open>time\<close> (in seconds) and the store behind the \<^verbatim>\<open>cache\<close> decorator:
  for a key, the cached value and the time it was stored.  \<open>gets\<close> and \<open>posts\<close> count
  the requests the session has sent.
\<close>

record api =
  client_id :: string
  client_secret :: string
  mature :: string
  delay :: nat
  clock :: nat
  gets :: nat
  posts :: nat
  logged :: "log_entry list"
  authorization :: "string option"
  token_cache :: "(string \<times> string \<times> nat) list"

text \<open>\<^verbatim>\<open>time.sleep(d)\<close>.\<close>

definition sleep :: "nat \<Rightarrow> api \<Rightarrow> api" where
  "sleep d st = st\<lparr>clock := clock st + d\<rparr>"

subsection \<open>Authentication\<close>

text \<open>
  Modelled from the spec: the decorator \<^verbatim>\<open>cache(maxage, keyarg)\<close> of
  \<^verbatim>\<open>gallery_dl/cache.py\<close>, which is not among the sources.  The spec (4.1): a call
  returns the cached value if one exists for the key and has not exceeded its TTL
  (\<open>maxage\<close> seconds from issuance); otherwise it runs the decorated function and
  caches what it returns under the key.  A call that raises caches nothing.
\<close>

definition cache ::
  "nat \<Rightarrow> (api \<Rightarrow> (error + string) \<times> api) \<Rightarrow> string \<Rightarrow> api \<Rightarrow> (error + string) \<times> api" where
  "cache maxage impl key st =
     (let fresh =
        (case impl st of
           (Inl e, st') \<Rightarrow> (Inl e, st')
         | (Inr v, st') \<Rightarrow>
             (Inr v, st'\<lparr>token_cache := AList.update key (v, clock st) (token_cache st')\<rparr>))
      in case map_of (token_cache st) key of
           None \<Rightarrow> fresh
         | Some (v, issued) \<Rightarrow> if clock st \<le> issued + maxage then (Inr v, st) else fresh)"

text \<open>
  The body of \<^verbatim>\<open>_authenticate_impl\<close>: one POST to the token endpoint.  A status
  other than 200 raises \<^verbatim>\<open>AuthenticationError\<close>; \<^verbatim>\<open>response.json()\<close>, the
  subscript and the concatenation raise as Python does.
\<close>

definition authenticate_impl_body ::
  "server \<Rightarrow> string \<Rightarrow> string \<Rightarrow> api \<Rightarrow> (error + string) \<times> api" where
  "authenticate_impl_body srv cid secret st =
     (let url = ''https://www.deviantart.com/oauth2/token'';
          data = [(''grant_type'', JStr ''client_credentials''),
                  (''client_id'', JStr cid),
                  (''client_secret'', JStr secret)];
          response = http_post srv (posts st) url data;
          st' = st\<lparr>posts := posts st + 1\<rparr>
      in if status_code response \<noteq> 200 then (Inl AuthenticationError, st')
         else
           (case resp_json response of
              None \<Rightarrow> (Inl ValueError, st')
            | Some j \<Rightarrow>
                (case getitem j ''access_token'' of
                   Inl e \<Rightarrow> (Inl e, st')
                 | Inr (JStr t) \<Rightarrow> (Inr (''Bearer '' @ t), st')
                 | Inr _ \<Rightarrow> (Inl TypeError, st'))))"

text \<open>\<^verbatim>\<open>@cache(maxage=3600, keyarg=1)\<close>: argument 1 is \<open>client_id\<close>.\<close>

definition authenticate_impl ::
  "server \<Rightarrow> string \<Rightarrow> string \<Rightarrow> api \<Rightarrow> (error + string) \<times> api" where
  "authenticate_impl srv cid secret st = cache 3600 (authenticate_impl_body srv cid secret) cid st"

definition authenticate :: "server \<Rightarrow> api \<Rightarrow> error option \<times> api" where
  "authenticate srv st =
     (case authenticate_impl srv (client_id st) (client_secret st) st of
        (Inl e, st') \<Rightarrow> (Some e, st')
      | (Inr access_token, st') \<Rightarrow> (None, st'\<lparr>authorization := Some access_token\<rparr>))"

subsection \<open>\<^verbatim>\<open>_call\<close>\<close>

text \<open>
  One pass of the \<^verbatim>\<open>while True\<close> loop of \<^verbatim>\<open>_call\<close> with the counter
  \<open>tries\<close>; the loop ends with the response of status 200 or raises.
\<close>

function call_loop ::
  "server \<Rightarrow> string \<Rightarrow> dict option \<Rightarrow> nat \<Rightarrow> api \<Rightarrow> (error + response) \<times> api" where
  "call_loop srv url params tries st =
     (let st1 = (if delay st \<noteq> 0 then sleep (delay st) st else st) in
      case authenticate srv st1 of
        (Some e, st2) \<Rightarrow> (Inl e, st2)
      | (None, st2) \<Rightarrow>
          (let response = http_get srv (gets st2) url params (authorization st2);
               st3 = st2\<lparr>gets := gets st2 + 1\<rparr>
           in if status_code response = 200 then (Inr response, st3)
              else
                (let st4 =
                   (if status_code response = 429
                    then st3\<lparr>delay := delay st3 + 1,
                             logged := logged st3 @ [Debug_rate_limit (delay st3 + 1)]\<rparr>
                    else st3\<lparr>delay := 1,
                             logged := logged st3 @ [Debug_http_status (status_code response) tries]\<rparr>)
                 in if tries + 1 > 3 then (Inl (Exception (resp_text response)), st4)
                    else call_loop srv url params (tries + 1) st4)))"
  by pat_completeness auto
termination
  by (relation "measure (\<lambda>(srv, url, params, tries, st). 3 - tries)") auto

declare call_loop.simps [simp del]

definition call :: "server \<Rightarrow> string \<Rightarrow> dict option \<Rightarrow> api \<Rightarrow> (error + json) \<times> api" where
  "call srv endpoint params st =
     (case call_loop srv (''https://www.deviantart.com/api/v1/oauth2/'' @ endpoint) params 1 st of
        (Inl e, st') \<Rightarrow> (Inl e, st')
      | (Inr response, st') \<Rightarrow>
          (case resp_json response of
             Some v \<Rightarrow> (Inr v, st')
           | None \<Rightarrow> (Inr (JObj []), st')))"

subsection \<open>\<^verbatim>\<open>_pagination\<close>\<close>

text \<open>How a generator ends: it returns, or an exception leaves it.\<close>

datatype ending = Returned | Raised error

text \<open>
  The generator \<^verbatim>\<open>_pagination\<close>, run to its end: the values it yields in order,
  how it ends, and the client's state then.  The loop has no bound of its own (a server
  may answer \<open>has_more\<close> for ever), so the model takes fuel, one unit per request of a
  page, and is \<open>None\<close> when the fuel runs out.
\<close>

fun pagination ::
  "nat \<Rightarrow> server \<Rightarrow> string \<Rightarrow> dict option \<Rightarrow> api \<Rightarrow> (json list \<times> ending \<times> api) option" where
  "pagination 0 srv endpoint params st = None"
| "pagination (Suc fuel) srv endpoint params st =
     (case call srv endpoint params st of
        (Inl e, st1) \<Rightarrow> Some ([], Raised e, st1)
      | (Inr data, st1) \<Rightarrow>
          (case py_in ''results'' data of
             Inl e \<Rightarrow> Some ([], Raised e, st1)
           | Inr present \<Rightarrow>
               if \<not> present
               then Some ([], Returned,
                          st1\<lparr>logged := logged st1 @ [Error_unexpected_response data]\<rparr>)
               else
                 (case getitem data ''results'' of
                    Inl e \<Rightarrow> Some ([], Raised e, st1)
                  | Inr results \<Rightarrow>
                      (case py_iter results of
                         Inl e \<Rightarrow> Some ([], Raised e, st1)
                       | Inr rs \<Rightarrow>
                           (case getitem data ''has_more'' of
                              Inl e \<Rightarrow> Some (rs, Raised e, st1)
                            | Inr has_more \<Rightarrow>
                                if \<not> truthy has_more then Some (rs, Returned, st1)
                                else
                                  (case getitem data ''next_offset'' of
                                     Inl e \<Rightarrow> Some (rs, Raised e, st1)
                                   | Inr next_offset \<Rightarrow>
                                       (case params of
                                          None \<Rightarrow> Some (rs, Raised TypeError, st1)
                                        | Some p \<Rightarrow>
                                            (case pagination fuel srv endpoint
                                                    (Some (setitem ''offset'' next_offset p)) st1 of
                                               None \<Rightarrow> None
                                             | Some (rest, fin, st2) \<Rightarrow>
                                                 Some (rs @ rest, fin, st2)))))))))"

subsection \<open>The endpoints\<close>

text \<open>A listing: the endpoint and the query of a \<^verbatim>\<open>_pagination\<close> generator that has
  been created and not yet run.\<close>

record listing =
  lst_endpoint :: string
  lst_params :: dict

definition listing_params :: "api \<Rightarrow> string \<Rightarrow> nat \<Rightarrow> dict" where
  "listing_params st username offset =
     [(''username'', JStr username), (''offset'', JInt (int offset)), (''limit'', JInt 10),
      (''mature_content'', JStr (mature st))]"

text \<open>\<^verbatim>\<open>"collections/" + folder_id\<close> raises \<^verbatim>\<open>TypeError\<close> unless the id is a string.\<close>

definition collections :: "api \<Rightarrow> string \<Rightarrow> json \<Rightarrow> nat \<Rightarrow> error + listing" where
  "collections st username folder_id offset =
     (case folder_id of
        JStr f \<Rightarrow> Inr \<lparr>lst_endpoint = ''collections/'' @ f, lst_params = listing_params st username offset\<rparr>
      | _ \<Rightarrow> Inl TypeError)"

definition collections_folders :: "api \<Rightarrow> string \<Rightarrow> listing" where
  "collections_folders st username =
     \<lparr>lst_endpoint = ''collections/folders'', lst_params = listing_params st username 0\<rparr>"

definition gallery_all :: "api \<Rightarrow> string \<Rightarrow> nat \<Rightarrow> listing" where
  "gallery_all st username offset =
     \<lparr>lst_endpoint = ''gallery/all'', lst_params = listing_params st username offset\<rparr>"

definition run_listing ::
  "nat \<Rightarrow> server \<Rightarrow> listing \<Rightarrow> api \<Rightarrow> (json list \<times> ending \<times> api) option" where
  "run_listing fuel srv l st = pagination fuel srv (lst_endpoint l) (Some (lst_params l)) st"

definition deviation_content :: "server \<Rightarrow> json \<Rightarrow> api \<Rightarrow> (error + json) \<times> api" where
  "deviation_content srv deviation_id st =
     call srv ''deviation/content'' (Some [(''deviationid'', deviation_id)]) st"

section \<open>The record pipeline: \<^verbatim>\<open>DeviantartExtractor\<close>\<close>

subsection \<open>\<^verbatim>\<open>prepare\<close>\<close>

text \<open>
  \<^verbatim>\<open>prepare\<close> changes the record in place and may raise half-way, so it returns
  the exception, if any, together with the record as it then is.  Only the
  \<^verbatim>\<open>KeyError\<close> of \<^verbatim>\<open>deviation["url"]\<close> is caught.
\<close>

definition del_if_present :: "string \<Rightarrow> dict \<Rightarrow> dict" where
  "del_if_present key d = (if has_key key d then AList.delete key d else d)"

definition prepare :: "dict \<Rightarrow> error option \<times> dict" where
  "prepare deviation =
     (let d = fold del_if_present [''stats'', ''preview'', ''thumbs''] deviation in
      case map_of d ''url'' of
        None \<Rightarrow> (None, setitem ''index'' (JInt 0) d)
      | Some u \<Rightarrow>
          (case rsplit_hyphen u of
             Inl e \<Rightarrow> (Some e, d)
           | Inr parts \<Rightarrow>
               (case subscript parts 1 of
                  Inl e \<Rightarrow> (Some e, d)
                | Inr seg \<Rightarrow> (None, setitem ''index'' (JStr seg) d))))"

subsection \<open>What the module imports\<close>

text \<open>
  \<^verbatim>\<open>text.escape\<close> and \<^verbatim>\<open>text.nameext_from_url\<close> live in \<^verbatim>\<open>gallery_dl/text.py\<close>,
  \<^verbatim>\<open>str()\<close> and \<^verbatim>\<open>re\<close> in Python's library; none is in this file, so each is a
  parameter of the model: \<open>text_escape v\<close> is the escaped text or the exception,
  \<open>nameext_from_url url data\<close> is the dictionary the function returns for the copy
  \<open>data\<close>, \<open>py_str v\<close> is \<^verbatim>\<open>str(v)\<close> for a value that is not a string, and
  \<open>re_compile p\<close> is the matcher \<^verbatim>\<open>re.compile(p).match\<close> (or the exception of
  \<^verbatim>\<open>re.compile\<close>) for a pattern that has a metacharacter other than the ones
  modelled below.
\<close>

record externals =
  text_escape :: "json \<Rightarrow> error + string"
  nameext_from_url :: "json \<Rightarrow> dict \<Rightarrow> error + json"
  py_str :: "json \<Rightarrow> string"
  re_compile :: "string \<Rightarrow> error + (json \<Rightarrow> error + bool)"

subsection \<open>\<^verbatim>\<open>commit\<close>\<close>

text \<open>
  \<^verbatim>\<open>commit\<close> writes \<open>target\<close> and \<open>extension\<close> into the record it is given and
  returns the URL for the \<^verbatim>\<open>Url\<close> message.  \<^verbatim>\<open>target["src"]\<close> needs a dictionary
  with the key.
\<close>

definition commit :: "externals \<Rightarrow> dict \<Rightarrow> json \<Rightarrow> (error + json) \<times> dict" where
  "commit ext deviation target =
     (case target of
        JObj t \<Rightarrow>
          (case lookup t ''src'' of
             Inl e \<Rightarrow> (Inl e, deviation)
           | Inr url \<Rightarrow>
               (case nameext_from_url ext url t of
                  Inl e \<Rightarrow> (Inl e, deviation)
                | Inr data \<Rightarrow>
                    (let d1 = setitem ''target'' data deviation in
                     case getitem data ''extension'' of
                       Inl e \<Rightarrow> (Inl e, d1)
                     | Inr x \<Rightarrow> (Inr url, setitem ''extension'' x d1))))
      | _ \<Rightarrow> (Inl TypeError, deviation))"

subsection \<open>Selecting the video\<close>

text \<open>
  \<^verbatim>\<open>int(s)\<close> for a string: surrounding white space is dropped, a sign may come
  first, then decimal digits, where single underscores may stand between two digits.
  (Digits outside ASCII are not modelled.)
\<close>

definition is_digit :: "char \<Rightarrow> bool" where
  "is_digit c = (48 \<le> (of_char c :: nat) \<and> (of_char c :: nat) \<le> 57)"

definition digit_val :: "char \<Rightarrow> nat" where
  "digit_val c = (of_char c :: nat) - 48"

definition decimal :: "string \<Rightarrow> nat" where
  "decimal s = foldl (\<lambda>a c. 10 * a + digit_val c) 0 s"

text \<open>
  The white space \<^verbatim>\<open>int\<close> drops from a string.  A character of the model is a code
  point below 256.  \<^verbatim>\<open>int\<close> first turns the white space outside ASCII into blanks
  (below 256: U+0085 and U+00A0) and leaves ASCII as it is, then drops what C calls
  white space: the blank and the characters 9 to 13.  The separators 28 to 31 are not
  dropped, so a string with one of them raises \<^verbatim>\<open>ValueError\<close>.
\<close>

definition is_space :: "char \<Rightarrow> bool" where
  "is_space c = ((of_char c :: nat) \<in> set [9, 10, 11, 12, 13, 32, 133, 160])"

definition strip :: "string \<Rightarrow> string" where
  "strip s = rev (dropWhile is_space (rev (dropWhile is_space s)))"

fun digit_groups :: "string \<Rightarrow> bool" where
  "digit_groups [] = False"
| "digit_groups [c] = is_digit c"
| "digit_groups (c # d # cs) =
     (is_digit c \<and> (if d = CHR ''_'' then digit_groups cs else digit_groups (d # cs)))"

definition int_of_string :: "string \<Rightarrow> error + int" where
  "int_of_string s =
     (let t = strip s;
          signed = (t \<noteq> [] \<and> (hd t = CHR ''-'' \<or> hd t = CHR ''+''));
          digits = (if signed then tl t else t)
      in if digit_groups digits
         then Inr ((if signed \<and> hd t = CHR ''-'' then - 1 else 1)
                   * int (decimal (filter is_digit digits)))
         else Inl ValueError)"

text \<open>\<^verbatim>\<open>int(v)\<close>.\<close>

fun py_int :: "json \<Rightarrow> error + int" where
  "py_int (JStr s) = int_of_string s"
| "py_int (JInt i) = Inr i"
| "py_int (JBool b) = Inr (if b then 1 else 0)"
| "py_int _ = Inl TypeError"

text \<open>\<^verbatim>\<open>v[:-1]\<close>: all but the last element of a string or a list.\<close>

fun slice_but_last :: "json \<Rightarrow> error + json" where
  "slice_but_last (JStr s) = Inr (JStr (butlast s))"
| "slice_but_last (JList xs) = Inr (JList (butlast xs))"
| "slice_but_last _ = Inl TypeError"

text \<open>The key of the selection, \<^verbatim>\<open>lambda x: int(x["quality"][:-1])\<close>.\<close>

definition quality_key :: "json \<Rightarrow> error + int" where
  "quality_key x =
     (case getitem x ''quality'' of
        Inl e \<Rightarrow> Inl e
      | Inr q \<Rightarrow> (case slice_but_last q of Inl e \<Rightarrow> Inl e | Inr p \<Rightarrow> py_int p))"

text \<open>
  \<^verbatim>\<open>max(xs, key=f)\<close>: the key of every element is computed in order; an element
  replaces the best so far only when its key is greater, so the first of several
  greatest elements is returned.  The empty sequence raises \<^verbatim>\<open>ValueError\<close>.
\<close>

fun max_from :: "('a \<Rightarrow> error + int) \<Rightarrow> 'a \<Rightarrow> int \<Rightarrow> 'a list \<Rightarrow> error + 'a" where
  "max_from key best bk [] = Inr best"
| "max_from key best bk (x # xs) =
     (case key x of
        Inl e \<Rightarrow> Inl e
      | Inr k \<Rightarrow> if k > bk then max_from key x k xs else max_from key best bk xs)"

fun py_max :: "('a \<Rightarrow> error + int) \<Rightarrow> 'a list \<Rightarrow> error + 'a" where
  "py_max key [] = Inl ValueError"
| "py_max key (x # xs) = (case key x of Inl e \<Rightarrow> Inl e | Inr k \<Rightarrow> max_from key x k xs)"

definition select_video :: "json \<Rightarrow> error + json" where
  "select_video videos =
     (case py_iter videos of Inl e \<Rightarrow> Inl e | Inr vs \<Rightarrow> py_max quality_key vs)"

subsection \<open>The journal document\<close>

definition JOURNAL_TEMPLATE :: string where
  \<open>JOURNAL_TEMPLATE =
     ''text://<!DOCTYPE html>\<newline>'' @
     ''<html>\<newline>'' @
     ''<head>\<newline>'' @
     ''    <meta charset="utf-8">\<newline>'' @
     ''    <title>{title}</title>\<newline>'' @
     ''    <link rel="stylesheet" href="http://st.deviantart.net/css/deviantart-network_lc.css?3843780832">\<newline>'' @
     ''    <link rel="stylesheet" href="http://st.deviantart.net/css/group_secrets_lc.css?3250492874">\<newline>'' @
     ''    <link rel="stylesheet" href="http://st.deviantart.net/css/v6core_lc.css?4246581581">\<newline>'' @
     ''    <link rel="stylesheet" href="http://st.deviantart.net/css/sidebar_lc.css?1490570941">\<newline>'' @
     ''    <link rel="stylesheet" href="http://st.deviantart.net/css/writer_lc.css?3090682151">\<newline>'' @
     ''    <link rel="stylesheet" href="http://st.deviantart.net/css/v6loggedin_lc.css?3001430805">\<newline>'' @
     ''    <style>{css}</style>\<newline>'' @
     ''    <link rel="stylesheet" href="http://st.deviantart.net/roses/cssmin/core.css?1488405371919" >\<newline>'' @
     ''    <link rel="stylesheet" href="http://st.deviantart.net/roses/cssmin/peeky.css?1487067424177" >\<newline>'' @
     ''    <link rel="stylesheet" href="http://st.deviantart.net/roses/cssmin/desktop.css?1491362542749" >\<newline>'' @
     ''</head>\<newline>'' @
     ''<body id="deviantART-v7" class="bubble no-apps loggedout w960 deviantart">\<newline>'' @
     ''    <div id="output">\<newline>'' @
     ''    <div class="dev-page-container bubbleview">\<newline>'' @
     ''    <div class="dev-page-view view-mode-normal">\<newline>'' @
     ''    <div class="dev-view-main-content">\<newline>'' @
     ''    <div class="dev-view-deviation">\<newline>'' @
     ''    <div class="journal-wrapper tt-a">\<newline>'' @
     ''    <div class="journal-wrapper2">\<newline>'' @
     ''    <div class="journal withskin">\<newline>'' @
     ''    {html}\<newline>'' @
     ''    </div>\<newline>'' @
     ''    </div>\<newline>'' @
     ''    </div>\<newline>'' @
     ''    </div>\<newline>'' @
     ''    </div>\<newline>'' @
     ''    </div>\<newline>'' @
     ''    </div>\<newline>'' @
     ''    </div>\<newline>'' @
     ''</body>\<newline>'' @
     ''</html>\<newline>''\<close>

text \<open>\<^verbatim>\<open>format(v, "")\<close>, what \<^verbatim>\<open>str.format\<close> inserts for a field.\<close>

definition format_value :: "externals \<Rightarrow> json \<Rightarrow> string" where
  "format_value ext v = (case v of JStr s \<Rightarrow> s | _ \<Rightarrow> py_str ext v)"

definition prepend :: "string \<Rightarrow> error + string \<Rightarrow> error + string" where
  "prepend s r = (case r of Inl e \<Rightarrow> Inl e | Inr t \<Rightarrow> Inr (s @ t))"

text \<open>
  \<^verbatim>\<open>template.format(**kwargs)\<close> for a template whose fields are plain keyword names,
  as those of \<^verbatim>\<open>JOURNAL_TEMPLATE\<close> are: the text between \<^verbatim>\<open>{\<close> and the next
  \<^verbatim>\<open>}\<close> names the keyword, doubled braces stand for one brace, and a brace on its
  own raises \<^verbatim>\<open>ValueError\<close>.
\<close>

function py_format :: "externals \<Rightarrow> dict \<Rightarrow> string \<Rightarrow> error + string" where
  "py_format ext kwargs [] = Inr []"
| "py_format ext kwargs (c # cs) =
     (if c = CHR ''{'' then
        (if cs \<noteq> [] \<and> hd cs = CHR ''{'' then prepend ''{'' (py_format ext kwargs (tl cs))
         else
           (case dropWhile (\<lambda>x. x \<noteq> CHR ''}'') cs of
              [] \<Rightarrow> Inl ValueError
            | x # rest \<Rightarrow>
                (case map_of kwargs (takeWhile (\<lambda>x. x \<noteq> CHR ''}'') cs) of
                   None \<Rightarrow> Inl (KeyError (takeWhile (\<lambda>x. x \<noteq> CHR ''}'') cs))
                 | Some v \<Rightarrow> prepend (format_value ext v) (py_format ext kwargs rest))))
      else if c = CHR ''}'' then
        (if cs \<noteq> [] \<and> hd cs = CHR ''}'' then prepend ''}'' (py_format ext kwargs (tl cs))
         else Inl ValueError)
      else prepend [c] (py_format ext kwargs cs))"
  by pat_completeness auto
termination
proof (relation "measure (\<lambda>(ext, kwargs, s). length s)")
  fix cs :: string and x rest
  assume "dropWhile (\<lambda>x. x \<noteq> CHR ''}'') cs = x # rest"
  then have "length (x # rest) \<le> length cs"
    using length_dropWhile_le [of "\<lambda>x. x \<noteq> CHR ''}''" cs] by simp
  then show "((ext, kwargs, rest), (ext, kwargs, c # cs)) \<in> measure (\<lambda>(ext, kwargs, s). length s)"
    for ext :: externals and kwargs :: dict and c
    by simp
qed auto

declare py_format.simps [simp del]

text \<open>
  The keyword arguments are evaluated in the order they are written: the title and its
  escape, \<^verbatim>\<open>dev["html"]\<close>, then the conditional for the style sheet.
\<close>

definition journal_html :: "externals \<Rightarrow> dict \<Rightarrow> json \<Rightarrow> error + string" where
  "journal_html ext deviation dev =
     (case lookup deviation ''title'' of
        Inl e \<Rightarrow> Inl e
      | Inr t \<Rightarrow>
     (case text_escape ext t of
        Inl e \<Rightarrow> Inl e
      | Inr title \<Rightarrow>
     (case getitem dev ''html'' of
        Inl e \<Rightarrow> Inl e
      | Inr html \<Rightarrow>
     (case py_in ''css'' dev of
        Inl e \<Rightarrow> Inl e
      | Inr has_css \<Rightarrow>
     (case (if has_css then getitem dev ''css'' else Inr (JStr [])) of
        Inl e \<Rightarrow> Inl e
      | Inr css \<Rightarrow>
          py_format ext [(''title'', JStr title), (''html'', html), (''css'', css)]
            JOURNAL_TEMPLATE)))))"

subsection \<open>\<^verbatim>\<open>items\<close>\<close>

text \<open>
  A message carries the record as a reference: records are objects, \<^verbatim>\<open>prepare\<close> and
  \<^verbatim>\<open>commit\<close> change them in place, and a consumer that keeps a message sees later
  changes.  The records \<^verbatim>\<open>self.deviations()\<close> yields are distinct objects (each comes
  out of a response of its own), so the store is the list of the records and a
  reference is a position in it.
\<close>

datatype message = Version int | Directory nat | Url json nat

text \<open>
  The state of one run of the generator \<^verbatim>\<open>items\<close>: the store, the API client, the
  local variable \<open>last_author\<close>, and the messages yielded so far, each with the store as
  it was when the message was yielded.
\<close>

record run =
  store :: "dict list"
  client :: api
  last_author :: json
  emitted :: "(message \<times> dict list) list"

definition yield :: "message \<Rightarrow> run \<Rightarrow> run" where
  "yield m s = s\<lparr>emitted := emitted s @ [(m, store s)]\<rparr>"

definition assign :: "nat \<Rightarrow> dict \<Rightarrow> run \<Rightarrow> run" where
  "assign i d s = s\<lparr>store := (store s)[i := d]\<rparr>"

text \<open>
  \<^verbatim>\<open>self.prepare(deviation)\<close>: \<^verbatim>\<open>DeviantartFavoriteExtractor\<close> overrides it to attach
  its collection (\<open>coll\<close> is \<open>Some\<close> of it); the other extractors use the base method.
\<close>

definition self_prepare :: "json option \<Rightarrow> dict \<Rightarrow> error option \<times> dict" where
  "self_prepare coll deviation =
     (case prepare deviation of
        (Some e, d) \<Rightarrow> (Some e, d)
      | (None, d) \<Rightarrow> (None, case coll of None \<Rightarrow> d | Some c \<Rightarrow> setitem ''collection'' c d))"

definition do_prepare :: "json option \<Rightarrow> nat \<Rightarrow> run \<Rightarrow> error option \<times> run" where
  "do_prepare coll i s = (case self_prepare coll (store s ! i) of (err, d) \<Rightarrow> (err, assign i d s))"

definition placeholder_author :: json where
  "placeholder_author =
     JObj [(''username'', JStr []), (''userid'', JStr []), (''usericon'', JStr []),
           (''type'', JStr [])]"

text \<open>Lines 39 to 47: the author, the placeholder, and the \<^verbatim>\<open>Directory\<close> message.\<close>

definition do_author :: "nat \<Rightarrow> run \<Rightarrow> error option \<times> run" where
  "do_author i s =
     (let s1 = (case map_of (store s ! i) ''author'' of
                  Some a \<Rightarrow> s
                | None \<Rightarrow> assign i (setitem ''author'' placeholder_author (store s ! i)) s);
          author = (case map_of (store s ! i) ''author'' of Some a \<Rightarrow> a | None \<Rightarrow> JNull)
      in if \<not> py_eq author (last_author s)
         then (None, (yield (Directory i) s1)\<lparr>last_author := author\<rparr>)
         else (None, s1))"

text \<open>\<^verbatim>\<open>yield self.commit(deviation, target)\<close>.\<close>

definition do_commit :: "externals \<Rightarrow> nat \<Rightarrow> json \<Rightarrow> run \<Rightarrow> error option \<times> run" where
  "do_commit ext i target s =
     (case commit ext (store s ! i) target of
        (Inl e, d) \<Rightarrow> (Some e, assign i d s)
      | (Inr url, d) \<Rightarrow> (None, yield (Url url i) (assign i d s)))"

definition do_content :: "externals \<Rightarrow> nat \<Rightarrow> run \<Rightarrow> error option \<times> run" where
  "do_content ext i s =
     (case map_of (store s ! i) ''content'' of
        None \<Rightarrow> (None, s)
      | Some content \<Rightarrow> do_commit ext i content s)"

definition do_videos :: "externals \<Rightarrow> nat \<Rightarrow> run \<Rightarrow> error option \<times> run" where
  "do_videos ext i s =
     (case map_of (store s ! i) ''videos'' of
        None \<Rightarrow> (None, s)
      | Some videos \<Rightarrow>
          (case select_video videos of
             Inl e \<Rightarrow> (Some e, s)
           | Inr video \<Rightarrow> do_commit ext i video s))"

definition do_flash :: "externals \<Rightarrow> nat \<Rightarrow> run \<Rightarrow> error option \<times> run" where
  "do_flash ext i s =
     (case map_of (store s ! i) ''flash'' of
        None \<Rightarrow> (None, s)
      | Some flash \<Rightarrow> do_commit ext i flash s)"

definition do_excerpt :: "externals \<Rightarrow> server \<Rightarrow> nat \<Rightarrow> run \<Rightarrow> error option \<times> run" where
  "do_excerpt ext srv i s =
     (if \<not> has_key ''excerpt'' (store s ! i) then (None, s)
      else
        (case lookup (store s ! i) ''deviationid'' of
           Inl e \<Rightarrow> (Some e, s)
         | Inr deviationid \<Rightarrow>
             (case deviation_content srv deviationid (client s) of
                (Inl e, a) \<Rightarrow> (Some e, s\<lparr>client := a\<rparr>)
              | (Inr dev, a) \<Rightarrow>
                  (let s1 = assign i (setitem ''extension'' (JStr ''htm'') (store s ! i))
                              (s\<lparr>client := a\<rparr>)
                   in case journal_html ext (store s1 ! i) dev of
                        Inl e \<Rightarrow> (Some e, s1)
                      | Inr html \<Rightarrow> (None, yield (Url (JStr html) i) s1)))))"

definition do_html :: "nat \<Rightarrow> run \<Rightarrow> error option \<times> run" where
  "do_html i s =
     (if has_key ''html'' (store s ! i)
      then (None, s\<lparr>client := (client s)\<lparr>logged := logged (client s) @ [Info_skipping_journal]\<rparr>\<rparr>)
      else (None, s))"

text \<open>Statements in sequence: an exception of the first leaves the rest undone.\<close>

definition and_then ::
  "('s \<Rightarrow> error option \<times> 's) \<Rightarrow> ('s \<Rightarrow> error option \<times> 's) \<Rightarrow> 's \<Rightarrow> error option \<times> 's" where
  "and_then f g s = (case f s of (Some e, s') \<Rightarrow> (Some e, s') | (None, s') \<Rightarrow> g s')"

text \<open>The body of the \<^verbatim>\<open>for\<close> loop, for the record at position \<open>i\<close>.\<close>

definition process ::
  "externals \<Rightarrow> server \<Rightarrow> json option \<Rightarrow> nat \<Rightarrow> run \<Rightarrow> error option \<times> run" where
  "process ext srv coll i =
     and_then (do_prepare coll i)
    (and_then (do_author i)
    (and_then (do_content ext i)
    (and_then (do_videos ext i)
    (and_then (do_flash ext i)
    (and_then (do_excerpt ext srv i)
              (do_html i))))))"

fun for_each ::
  "externals \<Rightarrow> server \<Rightarrow> json option \<Rightarrow> nat list \<Rightarrow> run \<Rightarrow> error option \<times> run" where
  "for_each ext srv coll [] s = (None, s)"
| "for_each ext srv coll (i # rest) s =
     (case process ext srv coll i s of
        (Some e, s') \<Rightarrow> (Some e, s')
      | (None, s') \<Rightarrow> for_each ext srv coll rest s')"

text \<open>
  The generator \<^verbatim>\<open>items\<close>, run to its end.  \<open>deviations\<close> are the records that
  \<^verbatim>\<open>self.deviations()\<close> yields and \<open>source_end\<close> is the exception that ends that
  sequence, if one does.  (The requests the source itself sends between two records are
  not part of this model; the client's state here is changed by the journal fetches.)
\<close>

definition items ::
  "externals \<Rightarrow> server \<Rightarrow> json option \<Rightarrow> dict list \<Rightarrow> error option \<Rightarrow> api \<Rightarrow> ending \<times> run" where
  "items ext srv coll deviations source_end st =
     (let s0 = yield (Version 1)
                 \<lparr>store = deviations, client = st, last_author = JNull, emitted = []\<rparr>
      in case for_each ext srv coll [0..<length deviations] s0 of
           (Some e, s) \<Rightarrow> (Raised e, s)
         | (None, s) \<Rightarrow> (case source_end of None \<Rightarrow> (Returned, s) | Some e \<Rightarrow> (Raised e, s)))"

text \<open>The messages of a run, in order, without the stores.\<close>

definition messages :: "run \<Rightarrow> message list" where
  "messages s = map fst (emitted s)"

section \<open>The favourites: \<^verbatim>\<open>DeviantartFavoriteExtractor.deviations\<close>\<close>

text \<open>\<^verbatim>\<open>s.replace(a, b)\<close> for one-character strings.\<close>

definition replace_char :: "char \<Rightarrow> char \<Rightarrow> string \<Rightarrow> string" where
  "replace_char a b s = map (\<lambda>c. if c = a then b else c) s"

text \<open>The characters with a meaning of their own in a pattern of \<^verbatim>\<open>re\<close>.\<close>

definition is_meta :: "char \<Rightarrow> bool" where
  "is_meta c = (c \<in> set (''.^$*+?{}[]|()'' @ [CHR 0x5C]))"

text \<open>
  \<^verbatim>\<open>re.compile(p + "$").match(s)\<close> for a pattern \<open>p\<close> of ordinary characters and
  dots: the match starts at the first character of \<open>s\<close>, an ordinary character matches
  itself, a dot matches every character but the line feed, and \<^verbatim>\<open>$\<close> matches at the
  end of \<open>s\<close> or before a line feed that ends \<open>s\<close>.
\<close>

fun match_plain :: "string \<Rightarrow> string \<Rightarrow> bool" where
  "match_plain [] s = (s = [] \<or> s = [CHR 0x0A])"
| "match_plain (p # ps) [] = False"
| "match_plain (p # ps) (c # cs) =
     ((if p = CHR ''.'' then c \<noteq> CHR 0x0A else c = p) \<and> match_plain ps cs)"

text \<open>
  \<^verbatim>\<open>re.compile(p + "$")\<close>, as the matcher \<^verbatim>\<open>regex.match\<close>: a value that is not a
  string raises \<^verbatim>\<open>TypeError\<close>.  A pattern with another metacharacter is left to
  \<open>re_compile\<close>.
\<close>

definition compile_dollar :: "externals \<Rightarrow> string \<Rightarrow> error + (json \<Rightarrow> error + bool)" where
  "compile_dollar ext p =
     (if list_all (\<lambda>c. c = CHR ''.'' \<or> \<not> is_meta c) p
      then Inr (\<lambda>v. case v of JStr s \<Rightarrow> Inr (match_plain p s) | _ \<Rightarrow> Inl TypeError)
      else re_compile ext (p @ ''$''))"

text \<open>
  The fields of the extractor that \<^verbatim>\<open>deviations\<close> reads and writes, as
  \<^verbatim>\<open>__init__\<close> sets them.
\<close>

record favorite =
  user :: string
  favname :: string
  offset :: nat
  collection :: dict

text \<open>
  The loop \<^verbatim>\<open>for x in self._pagination(endpoint, params): if test(x): return x\<close>,
  as \<^verbatim>\<open>deviations\<close> runs it over the generator of \<^verbatim>\<open>collections_folders\<close>.  The
  generator is lazy: it works only while the loop asks for a value, so when the loop
  leaves at a value, the rest of that page is not looked at, \<open>has_more\<close> is not read
  and no further page is requested.

  \<open>first_hit\<close> is the loop over the values one page yields: the first value the test
  accepts, or \<open>None\<close> when the page is used up, or the exception of the test.
\<close>

fun first_hit :: "(json \<Rightarrow> error + bool) \<Rightarrow> json list \<Rightarrow> error + json option" where
  "first_hit test [] = Inr None"
| "first_hit test (x # xs) =
     (case test x of
        Inl e \<Rightarrow> Inl e
      | Inr hit \<Rightarrow> if hit then Inr (Some x) else first_hit test xs)"

text \<open>
  The loop over the generator: the body of \<^verbatim>\<open>_pagination\<close> with the loop
  over each page's values where \<^verbatim>\<open>yield from\<close> stands.  The result is the value the
  loop left with, \<open>None\<close> when the generator returned before that, or the exception
  that left the generator or the test; then the client's state.  Fuel as for
  \<open>pagination\<close>: one unit per request of a page.
\<close>

fun pagination_find ::
  "nat \<Rightarrow> server \<Rightarrow> (json \<Rightarrow> error + bool) \<Rightarrow> string \<Rightarrow> dict option \<Rightarrow> api
     \<Rightarrow> ((error + json option) \<times> api) option" where
  "pagination_find 0 srv test endpoint params st = None"
| "pagination_find (Suc fuel) srv test endpoint params st =
     (case call srv endpoint params st of
        (Inl e, st1) \<Rightarrow> Some (Inl e, st1)
      | (Inr data, st1) \<Rightarrow>
          (case py_in ''results'' data of
             Inl e \<Rightarrow> Some (Inl e, st1)
           | Inr present \<Rightarrow>
               if \<not> present
               then Some (Inr None,
                          st1\<lparr>logged := logged st1 @ [Error_unexpected_response data]\<rparr>)
               else
                 (case getitem data ''results'' of
                    Inl e \<Rightarrow> Some (Inl e, st1)
                  | Inr results \<Rightarrow>
                      (case py_iter results of
                         Inl e \<Rightarrow> Some (Inl e, st1)
                       | Inr rs \<Rightarrow>
                           (case first_hit test rs of
                              Inl e \<Rightarrow> Some (Inl e, st1)
                            | Inr (Some x) \<Rightarrow> Some (Inr (Some x), st1)
                            | Inr None \<Rightarrow>
                                (case getitem data ''has_more'' of
                                   Inl e \<Rightarrow> Some (Inl e, st1)
                                 | Inr has_more \<Rightarrow>
                                     if \<not> truthy has_more then Some (Inr None, st1)
                                     else
                                       (case getitem data ''next_offset'' of
                                          Inl e \<Rightarrow> Some (Inl e, st1)
                                        | Inr next_offset \<Rightarrow>
                                            (case params of
                                               None \<Rightarrow> Some (Inl TypeError, st1)
                                             | Some p \<Rightarrow>
                                                 pagination_find fuel srv test endpoint
                                                   (Some (setitem ''offset'' next_offset p)) st1))))))))"

text \<open>The test of the loop: \<^verbatim>\<open>regex.match(folder["name"])\<close>.\<close>

definition folder_test :: "(json \<Rightarrow> error + bool) \<Rightarrow> json \<Rightarrow> error + bool" where
  "folder_test regex_match folder =
     (case getitem folder ''name'' of
        Inl e \<Rightarrow> Inl e
      | Inr name \<Rightarrow> regex_match name)"

text \<open>
  \<^verbatim>\<open>deviations\<close> compiles the pattern, runs the loop over the folders that
  \<^verbatim>\<open>collections_folders(self.user)\<close> lists, and returns the listing of the folder
  it selected, or raises; it leaves the extractor with the collection's title changed,
  and the client in the state the requests for the folders left it in.  It is \<open>None\<close>
  when the fuel does not reach the end of the loop.
\<close>

definition deviations ::
  "externals \<Rightarrow> server \<Rightarrow> nat \<Rightarrow> favorite \<Rightarrow> api
     \<Rightarrow> ((error + listing) \<times> favorite \<times> api) option" where
  "deviations ext srv fuel self st =
     (case compile_dollar ext (replace_char (CHR ''-'') (CHR ''.'') (favname self)) of
        Inl e \<Rightarrow> Some (Inl e, self, st)
      | Inr regex_match \<Rightarrow>
          (let folders = collections_folders st (user self) in
           case pagination_find fuel srv (folder_test regex_match)
                  (lst_endpoint folders) (Some (lst_params folders)) st of
             None \<Rightarrow> None
           | Some (Inl e, st1) \<Rightarrow> Some (Inl e, self, st1)
           | Some (Inr None, st1) \<Rightarrow> Some (Inl (NotFoundError ''collection''), self, st1)
           | Some (Inr (Some folder), st1) \<Rightarrow>
               (case getitem folder ''name'' of
                  Inl e \<Rightarrow> Some (Inl e, self, st1)
                | Inr name \<Rightarrow>
                    (let self' = self\<lparr>collection := setitem ''title'' name (collection self)\<rparr> in
                     case getitem folder ''folderid'' of
                       Inl e \<Rightarrow> Some (Inl e, self', st1)
                     | Inr folderid \<Rightarrow>
                         (case collections st1 (user self) folderid (offset self) of
                            Inl e \<Rightarrow> Some (Inl e, self', st1)
                          | Inr l \<Rightarrow> Some (Inr l, self', st1))))))"

section \<open>Notions used in the statements\<close>

text \<open>A token endpoint that always answers 200 with a JSON object holding a string
  \<open>access_token\<close>: with it \<^verbatim>\<open>authenticate\<close> never raises.\<close>

definition token_server_ok :: "server \<Rightarrow> bool" where
  "token_server_ok srv =
     (\<forall>n url data. status_code (http_post srv n url data) = 200 \<and>
        (\<exists>j t. resp_json (http_post srv n url data) = Some j \<and> getitem j ''access_token'' = Inr (JStr t)))"

text \<open>The client's state after an attempt of \<^verbatim>\<open>_call\<close> that was not answered 200.\<close>

definition failed_attempt :: "response \<Rightarrow> nat \<Rightarrow> api \<Rightarrow> api" where
  "failed_attempt response tries st2 =
     (if status_code response = 429
      then st2\<lparr>gets := gets st2 + 1, delay := delay st2 + 1,
               logged := logged st2 @ [Debug_rate_limit (delay st2 + 1)]\<rparr>
      else st2\<lparr>gets := gets st2 + 1, delay := 1,
               logged := logged st2 @ [Debug_http_status (status_code response) tries]\<rparr>)"

text \<open>A client as \<^verbatim>\<open>__init__\<close> makes it, at time 0 and with nothing cached.\<close>

definition api_init :: "string \<Rightarrow> api" where
  "api_init m =
     \<lparr>client_id = ''5388'', client_secret = ''76b08c69cfb27f26d6161f9ab6d061a1'', mature = m,
      delay = 0, clock = 0, gets = 0, posts = 0, logged = [], authorization = None,
      token_cache = []\<rparr>"

text \<open>A server that answers the token request and fails every other request: 429, 500,
  then 429 again.\<close>

definition token_response :: response where
  "token_response =
     \<lparr>status_code = 200, resp_text = [], resp_json = Some (JObj [(''access_token'', JStr ''t0'')])\<rparr>"

definition failing_server :: server where
  "failing_server =
     \<lparr>http_get = (\<lambda>n url params auth.
         if n = 0 then \<lparr>status_code = 429, resp_text = ''first'', resp_json = None\<rparr>
         else if n = 1 then \<lparr>status_code = 500, resp_text = ''second'', resp_json = None\<rparr>
         else \<lparr>status_code = 429, resp_text = ''third'', resp_json = None\<rparr>),
      http_post = (\<lambda>n url data. token_response)\<rparr>"




text \<open>A rendition with the quality string \<open>q\<close>.\<close>

definition video :: "string \<Rightarrow> json" where
  "video q = JObj [(''src'', JStr (''https://v/'' @ q @ ''.mp4'')), (''quality'', JStr q)]"












text \<open>A folder, and a favourites extractor for the folder name \<open>n\<close> of a URL.\<close>

definition folder :: "string \<Rightarrow> string \<Rightarrow> json" where
  "folder fid n = JObj [(''folderid'', JStr fid), (''name'', JStr n)]"


text \<open>
  Stand-ins for the imported functions, for the examples: an escape of the three
  characters of HTML markup, a \<^verbatim>\<open>nameext_from_url\<close> that adds the file name (the
  text after the last slash) and the extension (the text after the last dot) to the
  copy, a \<^verbatim>\<open>str\<close> that is never needed and a \<^verbatim>\<open>re.compile\<close> that refuses
  every pattern left to it.
\<close>

definition escape_char :: "char \<Rightarrow> string" where
  "escape_char c =
     (if c = CHR ''&'' then ''&amp;''
      else if c = CHR ''<'' then ''&lt;''
      else if c = CHR ''>'' then ''&gt;''
      else [c])"

definition after_last :: "char \<Rightarrow> string \<Rightarrow> string" where
  "after_last c s = rev (takeWhile (\<lambda>x. x \<noteq> c) (rev s))"

definition example_externals :: externals where
  "example_externals =
     \<lparr>text_escape = (\<lambda>v. case v of JStr s \<Rightarrow> Inr (concat (map escape_char s))
                          | _ \<Rightarrow> Inl AttributeError),
      nameext_from_url = (\<lambda>url data. case url of
           JStr u \<Rightarrow> Inr (JObj (setitem ''extension'' (JStr (after_last (CHR ''.'') u))
                              (setitem ''filename'' (JStr (after_last (CHR ''/'') u)) data)))
         | _ \<Rightarrow> Inl TypeError),
      py_str = (\<lambda>v. []),
      re_compile = (\<lambda>p. Inl (Exception ''re.error''))\<rparr>"

text \<open>
  The document \<^verbatim>\<open>JOURNAL_TEMPLATE.format\<close> produces: the text of the template with
  the three fields replaced.  The template is 1472 characters long; \<^verbatim>\<open>{title}\<close>
  stands at 75, \<^verbatim>\<open>{css}\<close> at 660 and \<^verbatim>\<open>{html}\<close> at 1361.
\<close>

definition journal_document :: "string \<Rightarrow> string \<Rightarrow> string \<Rightarrow> string" where
  "journal_document title css html =
     take 75 JOURNAL_TEMPLATE @ title
     @ take 578 (drop 82 JOURNAL_TEMPLATE) @ css
     @ take 696 (drop 665 JOURNAL_TEMPLATE) @ html
     @ drop 1367 JOURNAL_TEMPLATE"

text \<open>
  A step of the loop body that yields only \<^verbatim>\<open>Url\<close> messages for the record at
  \<open>i\<close>, and changes neither the record's author nor \<open>last_author\<close>.
\<close>

definition urls_only :: "nat \<Rightarrow> (run \<Rightarrow> error option \<times> run) \<Rightarrow> bool" where
  "urls_only i f =
     (\<forall>s. i < length (store s) \<longrightarrow>
        (\<exists>new. emitted (snd (f s)) = emitted s @ new
           \<and> list_all (\<lambda>x. (\<exists>u. fst x = Url u i)
                  \<and> map_of (snd x ! i) ''author'' = map_of (store s ! i) ''author'') new)
        \<and> map_of (store (snd (f s)) ! i) ''author'' = map_of (store s ! i) ''author''
        \<and> length (store (snd (f s))) = length (store s)
        \<and> last_author (snd (f s)) = last_author s)"

text \<open>The part of the loop body after the \<^verbatim>\<open>Directory\<close> message (lines 49 to 72).\<close>

definition payloads :: "externals \<Rightarrow> server \<Rightarrow> nat \<Rightarrow> run \<Rightarrow> error option \<times> run" where
  "payloads ext srv i =
     and_then (do_content ext i)
    (and_then (do_videos ext i)
    (and_then (do_flash ext i)
    (and_then (do_excerpt ext srv i)
              (do_html i))))"

text \<open>A yielded message that carries the record at \<open>i\<close>.\<close>

definition about :: "nat \<Rightarrow> message \<times> dict list \<Rightarrow> bool" where
  "about i x = (fst x = Directory i \<or> (\<exists>u. fst x = Url u i))"

text \<open>
  Examples: a server that answers every request with a journal's content, a record
  without an author that has an image, and one that is a journal.
\<close>

definition journal_server :: server where
  "journal_server =
     \<lparr>http_get = (\<lambda>n url params auth.
         \<lparr>status_code = 200, resp_text = [],
          resp_json = Some (JObj [(''html'', JStr ''<p>Hello</p>'')])\<rparr>),
      http_post = (\<lambda>n url data. token_response)\<rparr>"

definition anonymous_image :: dict where
  "anonymous_image =
     [(''deviationid'', JStr ''D1''),
      (''url'', JStr ''https://sta.sh/art/Title-123''),
      (''title'', JStr ''Title''),
      (''content'', JObj [(''src'', JStr ''https://img/a.jpg'')])]"

definition anonymous_journal :: dict where
  "anonymous_journal =
     [(''deviationid'', JStr ''D2''),
      (''url'', JStr ''https://sta.sh/art/Notes-456''),
      (''title'', JStr ''Q & A''),
      (''excerpt'', JStr ''Hello'')]"

text \<open>
  What a successful \<^verbatim>\<open>commit\<close> of the payload \<open>target\<close> stores in the record: the
  dictionary \<^verbatim>\<open>nameext_from_url\<close> returns, and its \<open>extension\<close>.
\<close>

definition target_data :: "externals \<Rightarrow> json \<Rightarrow> error + json" where
  "target_data ext target =
     (case target of
        JObj t \<Rightarrow> (case lookup t ''src'' of Inl e \<Rightarrow> Inl e | Inr url \<Rightarrow> nameext_from_url ext url t)
      | _ \<Rightarrow> Inl TypeError)"

definition target_extension :: "externals \<Rightarrow> json \<Rightarrow> error + json" where
  "target_extension ext target =
     (case target_data ext target of Inl e \<Rightarrow> Inl e | Inr data \<Rightarrow> getitem data ''extension'')"

text \<open>
  A record with an image and a flash animation, and a run that starts with the records
  it is given.
\<close>

definition image_and_flash :: dict where
  "image_and_flash =
     [(''deviationid'', JStr ''D3''),
      (''url'', JStr ''https://www.deviantart.com/art/Both-789''),
      (''title'', JStr ''Both''),
      (''author'', JObj [(''username'', JStr ''u'')]),
      (''content'', JObj [(''src'', JStr ''https://img/b.png'')]),
      (''flash'', JObj [(''src'', JStr ''https://img/b.swf'')])]"

definition start :: "dict list \<Rightarrow> api \<Rightarrow> run" where
  "start ds st = \<lparr>store = ds, client = st, last_author = JNull, emitted = []\<rparr>"

text \<open>The record after the loop of \<^verbatim>\<open>prepare\<close> that deletes the bulky fields.\<close>

definition stripped :: "dict \<Rightarrow> dict" where
  "stripped d = fold del_if_present [''stats'', ''preview'', ''thumbs''] d"

text \<open>The style sheet of the journal document: \<^verbatim>\<open>dev["css"]\<close> if there is one.\<close>

definition journal_css :: "externals \<Rightarrow> json \<Rightarrow> string" where
  "journal_css ext dev = (case getitem dev ''css'' of Inl e \<Rightarrow> [] | Inr c \<Rightarrow> format_value ext c)"

text \<open>The journal of the examples, with an author.\<close>

definition signed_journal :: dict where
  "signed_journal = (''author'', JObj [(''username'', JStr ''u'')]) # anonymous_journal"




text \<open>
  The payloads the loop body commits for a record, in the order of lines 49 to 58: the
  \<open>content\<close>, the rendition selected from the \<open>videos\<close>, the \<open>flash\<close>; and the
  URL \<^verbatim>\<open>commit\<close> returns for a payload.  \<open>holds ext d t\<close>: the record \<open>d\<close> has
  the \<open>target\<close> and the \<open>extension\<close> that a commit of the payload \<open>t\<close> stores.
\<close>

definition committed :: "dict \<Rightarrow> json list" where
  "committed d =
     (case map_of d ''content'' of None \<Rightarrow> [] | Some content \<Rightarrow> [content])
     @ (case map_of d ''videos'' of
          None \<Rightarrow> []
        | Some videos \<Rightarrow> (case select_video videos of Inl e \<Rightarrow> [] | Inr v \<Rightarrow> [v]))
     @ (case map_of d ''flash'' of None \<Rightarrow> [] | Some flash \<Rightarrow> [flash])"

definition payload_src :: "json \<Rightarrow> json" where
  "payload_src target =
     (case target of
        JObj t \<Rightarrow> (case lookup t ''src'' of Inl e \<Rightarrow> JNull | Inr url \<Rightarrow> url)
      | _ \<Rightarrow> JNull)"

definition holds :: "externals \<Rightarrow> dict \<Rightarrow> json \<Rightarrow> bool" where
  "holds ext d target =
     (lookup d ''target'' = target_data ext target
      \<and> lookup d ''extension'' = target_extension ext target)"

text \<open>
  \<open>commits_seen ext i ts s s'\<close>: from the run \<open>s\<close> to the run \<open>s'\<close> the payloads
  \<open>ts\<close> were committed for the record at \<open>i\<close>, one \<^verbatim>\<open>Url\<close> message each, every
  message yielded when the record held that payload's values; the record's other keys
  are as they were.
\<close>

definition commits_seen :: "externals \<Rightarrow> nat \<Rightarrow> json list \<Rightarrow> run \<Rightarrow> run \<Rightarrow> bool" where
  "commits_seen ext i ts s s' =
     (length (store s') = length (store s)
      \<and> (\<forall>k. k \<noteq> ''target'' \<and> k \<noteq> ''extension''
             \<longrightarrow> map_of (store s' ! i) k = map_of (store s ! i) k)
      \<and> (\<exists>new. emitted s' = emitted s @ new
            \<and> map fst new = map (\<lambda>t. Url (payload_src t) i) ts
            \<and> list_all2 (\<lambda>t x. holds ext (snd x ! i) t) ts new)
      \<and> (if ts = [] then store s' = store s else holds ext (store s' ! i) (last ts)))"

text \<open>A record with an image, two video renditions and a flash animation.\<close>

definition three_payloads :: dict where
  "three_payloads =
     [(''deviationid'', JStr ''D4''),
      (''url'', JStr ''https://www.deviantart.com/art/All-321''),
      (''title'', JStr ''All''),
      (''author'', JObj [(''username'', JStr ''u'')]),
      (''content'', JObj [(''src'', JStr ''https://img/c.png'')]),
      (''videos'', JList [video ''360p'', video ''720p'']),
      (''flash'', JObj [(''src'', JStr ''https://img/c.swf'')])]"

section \<open>Properties\<close>

text \<open>
  Claim C3 (normalisation sets \<open>index\<close> to the trailing segment of \<open>url\<close>, to 0 when
  there is none, and never raises).  The code does not do this for a \<open>url\<close> without a
  hyphen: \<^verbatim>\<open>rsplit\<close> returns one part, \<^verbatim>\<open>[1]\<close> raises \<^verbatim>\<open>IndexError\<close>, and
  only \<^verbatim>\<open>KeyError\<close> is caught.  On the record \<^verbatim>\<open>{"url": "http://sta.sh/01ijs78ebagf"}\<close>
  \<^verbatim>\<open>prepare\<close> raises and leaves the record without an \<open>index\<close>.
\<close>

theorem prepare_url_without_hyphen_raises:
  "prepare [(''url'', JStr ''http://sta.sh/01ijs78ebagf'')]
     = (Some IndexError, [(''url'', JStr ''http://sta.sh/01ijs78ebagf'')])"
  by (simp add: prepare_def del_if_present_def has_key_def rsplit1_def subscript_def)

subsection \<open>Authentication and \<^verbatim>\<open>_call\<close>\<close>

lemma authenticate_impl_body_ok:
  assumes "token_server_ok srv"
  shows "\<exists>tok. authenticate_impl_body srv cid sec st = (Inr tok, st\<lparr>posts := posts st + 1\<rparr>)"
proof -
  from assms obtain j t where
    "status_code (http_post srv (posts st) ''https://www.deviantart.com/oauth2/token''
        [(''grant_type'', JStr ''client_credentials''), (''client_id'', JStr cid), (''client_secret'', JStr sec)]) = 200"
    "resp_json (http_post srv (posts st) ''https://www.deviantart.com/oauth2/token''
        [(''grant_type'', JStr ''client_credentials''), (''client_id'', JStr cid), (''client_secret'', JStr sec)]) = Some j"
    "getitem j ''access_token'' = Inr (JStr t)"
    unfolding token_server_ok_def by blast
  then show ?thesis
    by (simp add: authenticate_impl_body_def Let_def)
qed

lemma authenticate_ok:
  assumes "token_server_ok srv"
  shows "\<exists>st'. authenticate srv st = (None, st') \<and> gets st' = gets st \<and> delay st' = delay st
            \<and> logged st' = logged st"
proof -
  obtain tok where b: "authenticate_impl_body srv (client_id st) (client_secret st) st
      = (Inr tok, st\<lparr>posts := posts st + 1\<rparr>)"
    using authenticate_impl_body_ok [OF assms] by blast
  show ?thesis
    by (auto simp: authenticate_def authenticate_impl_def cache_def b Let_def split: option.splits prod.splits)
qed


lemma authenticate_gets: "gets (snd (authenticate srv st)) = gets st"
  by (auto simp: authenticate_def authenticate_impl_def cache_def authenticate_impl_body_def Let_def
      split: option.splits prod.splits sum.splits json.splits if_splits)

lemma sleep_gets: "gets (sleep d st) = gets st"
  by (simp add: sleep_def)



lemma call_loop_unfold:
  assumes "authenticate srv (if delay st \<noteq> 0 then sleep (delay st) st else st) = (r, st2)"
  shows "call_loop srv url params tries st =
     (case r of
        Some e \<Rightarrow> (Inl e, st2)
      | None \<Rightarrow>
          if status_code (http_get srv (gets st2) url params (authorization st2)) = 200
          then (Inr (http_get srv (gets st2) url params (authorization st2)),
                st2\<lparr>gets := gets st2 + 1\<rparr>)
          else if tries + 1 > 3
          then (Inl (Exception (resp_text (http_get srv (gets st2) url params (authorization st2)))),
                failed_attempt (http_get srv (gets st2) url params (authorization st2)) tries st2)
          else call_loop srv url params (tries + 1)
                 (failed_attempt (http_get srv (gets st2) url params (authorization st2)) tries st2))"
  apply (subst call_loop.simps)
  apply (simp only: assms Let_def prod.case)
  apply (cases r)
   apply (simp_all add: failed_attempt_def)
  done

lemma failed_attempt_gets [simp]: "gets (failed_attempt r tries st) = gets st + 1"
  by (simp add: failed_attempt_def)

lemma failed_attempt_authorization [simp]:
  "authorization (failed_attempt r tries st) = authorization st"
  by (simp add: failed_attempt_def)

lemma call_loop_step:
  obtains (stop) "gets (snd (call_loop srv url params tries st)) \<le> gets st + 1"
  | (retry) st4 where "tries + 1 \<le> 3" and "gets st4 = gets st + 1"
      and "call_loop srv url params tries st = call_loop srv url params (tries + 1) st4"
proof -
  obtain r st2 where a: "authenticate srv (if delay st \<noteq> 0 then sleep (delay st) st else st) = (r, st2)"
    by (cases "authenticate srv (if delay st \<noteq> 0 then sleep (delay st) st else st)")
  have g2: "gets st2 = gets st"
    using authenticate_gets [of srv "if delay st \<noteq> 0 then sleep (delay st) st else st"] a
    by (simp add: sleep_gets split: if_splits)
  note u = call_loop_unfold [OF a, of url params tries]
  let ?resp = "http_get srv (gets st2) url params (authorization st2)"
  show thesis
  proof (cases "r = None \<and> status_code ?resp \<noteq> 200 \<and> \<not> tries + 1 > 3")
    case True
    then show ?thesis using retry [of "failed_attempt ?resp tries st2"] u g2 by simp
  next
    case False
    then show ?thesis using stop u g2 by (auto split: option.splits)
  qed
qed

lemma call_loop_gets:
  "tries + n = 3 \<Longrightarrow> gets (snd (call_loop srv url params tries st)) \<le> gets st + n + 1"
proof (induction n arbitrary: tries st)
  case 0
  then show ?case by (cases rule: call_loop_step [of srv url params tries st]) auto
next
  case (Suc n)
  show ?case
  proof (cases rule: call_loop_step [of srv url params tries st])
    case stop
    then show ?thesis by simp
  next
    case (retry st4)
    have "gets (snd (call_loop srv url params (tries + 1) st4)) \<le> gets st4 + n + 1"
      using Suc.IH [of "tries + 1" st4] Suc.prems by simp
    then show ?thesis using retry by simp
  qed
qed

lemma call_loop_fail_step:
  assumes "token_server_ok srv"
    and "\<forall>a. status_code (http_get srv (gets st) url params a) \<noteq> 200"
  shows "\<exists>st4. gets st4 = gets st + 1 \<and>
           call_loop srv url params tries st =
             (if tries + 1 > 3
              then (Inl (Exception (resp_text (http_get srv (gets st) url params (authorization st4)))), st4)
              else call_loop srv url params (tries + 1) st4)"
proof -
  let ?st1 = "if delay st \<noteq> 0 then sleep (delay st) st else st"
  obtain st2 where a: "authenticate srv ?st1 = (None, st2)" and g2': "gets st2 = gets ?st1"
    using authenticate_ok [OF assms(1), of ?st1] by blast
  have g2: "gets st2 = gets st" using g2' by (simp add: sleep_gets split: if_splits)
  let ?resp = "http_get srv (gets st2) url params (authorization st2)"
  have n200: "status_code ?resp \<noteq> 200" using assms(2) by (simp add: g2)
  show ?thesis
    using call_loop_unfold [OF a, of url params tries] n200 g2
    by (intro exI [of _ "failed_attempt ?resp tries st2"]) simp
qed

lemma call_loop_three_failures:
  assumes "token_server_ok srv"
    and "\<forall>k<3. \<forall>a. status_code (http_get srv (gets st + k) url params a) \<noteq> 200"
  shows "\<exists>st'. call_loop srv url params 1 st =
            (Inl (Exception (resp_text (http_get srv (gets st + 2) url params (authorization st')))), st')
          \<and> gets st' = gets st + 3"
proof -
  have h: "status_code (http_get srv (gets st + k) url params a) \<noteq> 200" if "k < 3" for k a
    using assms(2) that by blast
  have f0: "\<forall>a. status_code (http_get srv (gets st) url params a) \<noteq> 200"
    using h [of 0] by simp
  obtain sa where sa: "gets sa = gets st + 1"
    "call_loop srv url params 1 st = call_loop srv url params (1 + 1) sa"
    using call_loop_fail_step [OF assms(1) f0, of 1] by auto
  have f1: "\<forall>a. status_code (http_get srv (gets sa) url params a) \<noteq> 200"
    using h [of 1] sa(1) by simp
  obtain sb where sb: "gets sb = gets sa + 1"
    "call_loop srv url params (1 + 1) sa = call_loop srv url params (1 + 1 + 1) sb"
    using call_loop_fail_step [OF assms(1) f1, of "1 + 1"] by auto
  have f2: "\<forall>a. status_code (http_get srv (gets sb) url params a) \<noteq> 200"
    using h [of 2] sa(1) sb(1) by simp
  obtain sc where sc: "gets sc = gets sb + 1"
    "call_loop srv url params (1 + 1 + 1) sb =
       (Inl (Exception (resp_text (http_get srv (gets sb) url params (authorization sc)))), sc)"
    using call_loop_fail_step [OF assms(1) f2, of "1 + 1 + 1"] by auto
  show ?thesis
    using sa sb sc by (intro exI [of _ sc]) (simp add: add.commute)
qed


text \<open>
  Claim C2.  When the token endpoint works and the three requests of one call are all
  answered with a status other than 200 (429 or any other, in any mix), \<^verbatim>\<open>_call\<close>
  raises \<^verbatim>\<open>Exception\<close> with the text of the third response, having sent exactly
  three GET requests.  And whatever the server answers, one call sends at most three.
\<close>

theorem call_retry_budget:
  "(token_server_ok srv \<and>
    (\<forall>k<3. \<forall>a. status_code (http_get srv (gets st + k)
                     (''https://www.deviantart.com/api/v1/oauth2/'' @ endpoint) params a) \<noteq> 200)
    \<longrightarrow> (\<exists>st'. call srv endpoint params st =
               (Inl (Exception (resp_text (http_get srv (gets st + 2)
                  (''https://www.deviantart.com/api/v1/oauth2/'' @ endpoint) params
                  (authorization st')))), st')
             \<and> gets st' = gets st + 3))
   \<and> gets (snd (call srv endpoint params st)) \<le> gets st + 3"
proof (intro conjI impI)
  assume h: "token_server_ok srv \<and>
    (\<forall>k<3. \<forall>a. status_code (http_get srv (gets st + k)
                     (''https://www.deviantart.com/api/v1/oauth2/'' @ endpoint) params a) \<noteq> 200)"
  then obtain st' where
    "call_loop srv (''https://www.deviantart.com/api/v1/oauth2/'' @ endpoint) params 1 st =
       (Inl (Exception (resp_text (http_get srv (gets st + 2)
          (''https://www.deviantart.com/api/v1/oauth2/'' @ endpoint) params (authorization st')))), st')"
    and "gets st' = gets st + 3"
    using call_loop_three_failures [of srv st "''https://www.deviantart.com/api/v1/oauth2/'' @ endpoint" params]
    by blast
  then show "\<exists>st'. call srv endpoint params st =
               (Inl (Exception (resp_text (http_get srv (gets st + 2)
                  (''https://www.deviantart.com/api/v1/oauth2/'' @ endpoint) params
                  (authorization st')))), st')
             \<and> gets st' = gets st + 3"
    by (intro exI [of _ st']) (simp add: call_def)
next
  have "gets (snd (call srv endpoint params st))
      = gets (snd (call_loop srv (''https://www.deviantart.com/api/v1/oauth2/'' @ endpoint) params 1 st))"
    by (simp add: call_def split: prod.splits sum.splits option.splits)
  also have "\<dots> \<le> gets st + 2 + 1"
    by (rule call_loop_gets) simp
  finally show "gets (snd (call srv endpoint params st)) \<le> gets st + 3" by simp
qed

lemma token_server_ok_failing_server: "token_server_ok failing_server"
  by (simp add: token_server_ok_def failing_server_def token_response_def)

theorem call_retry_budget_witness:
  "fst (call failing_server ''gallery/all'' None (api_init ''true'')) = Inl (Exception ''third'')
   \<and> gets (snd (call failing_server ''gallery/all'' None (api_init ''true''))) = 3"
proof -
  have "\<forall>k<3. \<forall>a. status_code (http_get failing_server (gets (api_init ''true'') + k)
          (''https://www.deviantart.com/api/v1/oauth2/'' @ ''gallery/all'') None a) \<noteq> 200"
    by (simp add: failing_server_def)
  then show ?thesis
    using call_retry_budget [of failing_server "api_init ''true''" "''gallery/all''" None]
      token_server_ok_failing_server
    by (auto simp: failing_server_def api_init_def)
qed

subsection \<open>The token cache\<close>


lemma authenticate_impl_body_cache:
  "token_cache (snd (authenticate_impl_body srv cid secret st)) = token_cache st"
  by (simp add: authenticate_impl_body_def Let_def split: option.splits sum.splits json.splits)



subsection \<open>The selection of the video\<close>

















subsection \<open>\<^verbatim>\<open>_pagination\<close>\<close>















subsection \<open>The favourites\<close>












lemma first_hit_append:
  "first_hit test (xs @ ys) = Inr None \<longleftrightarrow> first_hit test xs = Inr None \<and> first_hit test ys = Inr None"
  by (induction xs) (auto split: sum.splits)

text \<open>
  The loop and the generator agree: when the generator, run to its end, yields only
  values the test refuses, the loop ends as the generator does, in the same state.
\<close>

lemma pagination_find_exhausted:
  assumes "pagination fuel srv ep params st = Some (ys, fin, st')"
      and "first_hit test ys = Inr None"
  shows "pagination_find fuel srv test ep params st
           = Some (case fin of Returned \<Rightarrow> Inr None | Raised e \<Rightarrow> Inl e, st')"
  using assms
proof (induction fuel arbitrary: params st ys)
  case 0
  then show ?case by simp
next
  case (Suc fuel)
  obtain r st1 where c: "call srv ep params st = (r, st1)" by (cases "call srv ep params st")
  show ?case
  proof (cases r)
    case (Inl e)
    then show ?thesis using Suc.prems(1) c by auto
  next
    case data: (Inr data)
    show ?thesis
    proof (cases "py_in ''results'' data")
      case (Inl e)
      then show ?thesis using Suc.prems(1) c data by auto
    next
      case pin: (Inr present)
      show ?thesis
      proof (cases present)
        case False
        then show ?thesis using Suc.prems(1) c data pin by auto
      next
        case True
        show ?thesis
        proof (cases "getitem data ''results''")
          case (Inl e)
          then show ?thesis using Suc.prems(1) c data pin True by auto
        next
          case res: (Inr results)
          show ?thesis
          proof (cases "py_iter results")
            case (Inl e)
            then show ?thesis using Suc.prems(1) c data pin True res by auto
          next
            case rs: (Inr rs)
            note f = c data pin True res rs
            show ?thesis
            proof (cases "getitem data ''has_more''")
              case (Inl e)
              then show ?thesis using Suc.prems f by auto
            next
              case hm: (Inr h)
              show ?thesis
              proof (cases "truthy h")
                case False
                then show ?thesis using Suc.prems f hm by auto
              next
                case th: True
                show ?thesis
                proof (cases "getitem data ''next_offset''")
                  case (Inl e)
                  then show ?thesis using Suc.prems f hm th by auto
                next
                  case off: (Inr off)
                  show ?thesis
                  proof (cases params)
                    case None
                    then show ?thesis using Suc.prems f hm th off by auto
                  next
                    case (Some p)
                    from Suc.prems(1) f hm th off Some obtain rest where
                      r: "pagination fuel srv ep (Some (setitem ''offset'' off p)) st1 = Some (rest, fin, st')"
                      and y: "ys = rs @ rest"
                      by (auto split: option.splits)
                    have h1: "first_hit test rs = Inr None" and h2: "first_hit test rest = Inr None"
                      using Suc.prems(2) y by (simp_all add: first_hit_append)
                    show ?thesis
                      using Suc.IH [OF r h2] f hm th off Some h1 by simp
                  qed
                qed
              qed
            qed
          qed
        qed
      qed
    qed
  qed
qed








subsection \<open>The journal document\<close>

lemma template_parts:
  "JOURNAL_TEMPLATE = take 75 JOURNAL_TEMPLATE @ ''{title}'' @ take 578 (drop 82 JOURNAL_TEMPLATE)
      @ ''{css}'' @ take 696 (drop 665 JOURNAL_TEMPLATE) @ ''{html}'' @ drop 1367 JOURNAL_TEMPLATE"
  by (simp add: JOURNAL_TEMPLATE_def)

lemma py_format_literal:
  assumes "list_all (\<lambda>c. c \<noteq> CHR ''{'' \<and> c \<noteq> CHR ''}'') s"
  shows "py_format ext kw (s @ r) = prepend s (py_format ext kw r)"
  using assms
proof (induction s)
  case Nil
  then show ?case by (simp add: prepend_def split: sum.splits)
next
  case (Cons c s)
  then show ?case by (simp add: py_format.simps(2) [of ext kw c] prepend_def split: sum.splits)
qed

lemma py_format_field:
  assumes "map_of kw f = Some v" and "CHR ''}'' \<notin> set f" and "f \<noteq> []" and "hd f \<noteq> CHR ''{''"
  shows "py_format ext kw (''{'' @ f @ ''}'' @ r) = prepend (format_value ext v) (py_format ext kw r)"
proof -
  have t: "takeWhile (\<lambda>x. x \<noteq> CHR ''}'') (f @ CHR ''}'' # r) = f"
    using assms(2) by (induction f) auto
  have d: "dropWhile (\<lambda>x. x \<noteq> CHR ''}'') (f @ CHR ''}'' # r) = CHR ''}'' # r"
    using assms(2) by (induction f) auto
  have h: "hd (f @ CHR ''}'' # r) \<noteq> CHR ''{''" using assms(3,4) by (cases f) auto
  show ?thesis
    using assms(1) h by (simp add: py_format.simps(2) [of ext kw "CHR ''{''"] t d)
qed

lemma template_literals:
  "list_all (\<lambda>c. c \<noteq> CHR ''{'' \<and> c \<noteq> CHR ''}'') (take 75 JOURNAL_TEMPLATE)"
  "list_all (\<lambda>c. c \<noteq> CHR ''{'' \<and> c \<noteq> CHR ''}'') (take 578 (drop 82 JOURNAL_TEMPLATE))"
  "list_all (\<lambda>c. c \<noteq> CHR ''{'' \<and> c \<noteq> CHR ''}'') (take 696 (drop 665 JOURNAL_TEMPLATE))"
  "list_all (\<lambda>c. c \<noteq> CHR ''{'' \<and> c \<noteq> CHR ''}'') (drop 1367 JOURNAL_TEMPLATE)"
  by (simp_all add: JOURNAL_TEMPLATE_def)

lemma py_format_journal:
  "py_format ext [(''title'', JStr title), (''html'', html), (''css'', css)] JOURNAL_TEMPLATE
     = Inr (journal_document title (format_value ext css) (format_value ext html))"
proof -
  let ?kw = "[(''title'', JStr title), (''html'', html), (''css'', css)]"
  define p0 where "p0 = take 75 JOURNAL_TEMPLATE"
  define p1 where "p1 = take 578 (drop 82 JOURNAL_TEMPLATE)"
  define p2 where "p2 = take 696 (drop 665 JOURNAL_TEMPLATE)"
  define p3 where "p3 = drop 1367 JOURNAL_TEMPLATE"
  note lit = template_literals [folded p0_def p1_def p2_def p3_def]
  have t: "JOURNAL_TEMPLATE = p0 @ ''{title}'' @ p1 @ ''{css}'' @ p2 @ ''{html}'' @ p3"
    unfolding p0_def p1_def p2_def p3_def by (rule template_parts)
  have "py_format ext ?kw (p3 @ []) = Inr p3"
    using py_format_literal [OF lit(4), of ext ?kw "[]"] by (simp add: py_format.simps prepend_def)
  then have "py_format ext ?kw (''{'' @ ''html'' @ ''}'' @ p3) = Inr (format_value ext html @ p3)"
    using py_format_field [of ?kw "''html''" html ext p3] by (simp add: prepend_def)
  then have "py_format ext ?kw (p2 @ ''{html}'' @ p3) = Inr (p2 @ format_value ext html @ p3)"
    using py_format_literal [OF lit(3), of ext ?kw "''{html}'' @ p3"] by (simp add: prepend_def)
  then have "py_format ext ?kw (''{'' @ ''css'' @ ''}'' @ p2 @ ''{html}'' @ p3)
      = Inr (format_value ext css @ p2 @ format_value ext html @ p3)"
    using py_format_field [of ?kw "''css''" css ext "p2 @ ''{html}'' @ p3"] by (simp add: prepend_def)
  then have "py_format ext ?kw (p1 @ ''{css}'' @ p2 @ ''{html}'' @ p3)
      = Inr (p1 @ format_value ext css @ p2 @ format_value ext html @ p3)"
    using py_format_literal [OF lit(2), of ext ?kw "''{css}'' @ p2 @ ''{html}'' @ p3"]
    by (simp add: prepend_def)
  then have "py_format ext ?kw (''{'' @ ''title'' @ ''}'' @ p1 @ ''{css}'' @ p2 @ ''{html}'' @ p3)
      = Inr (title @ p1 @ format_value ext css @ p2 @ format_value ext html @ p3)"
    using py_format_field [of ?kw "''title''" "JStr title" ext "p1 @ ''{css}'' @ p2 @ ''{html}'' @ p3"]
    by (simp add: prepend_def format_value_def)
  then have "py_format ext ?kw (p0 @ ''{title}'' @ p1 @ ''{css}'' @ p2 @ ''{html}'' @ p3)
      = Inr (p0 @ title @ p1 @ format_value ext css @ p2 @ format_value ext html @ p3)"
    using py_format_literal [OF lit(1), of ext ?kw "''{title}'' @ p1 @ ''{css}'' @ p2 @ ''{html}'' @ p3"]
    by (simp add: prepend_def)
  then have "py_format ext ?kw JOURNAL_TEMPLATE
      = Inr (p0 @ title @ p1 @ format_value ext css @ p2 @ format_value ext html @ p3)"
    by (subst t)
  then show ?thesis
    unfolding journal_document_def p0_def p1_def p2_def p3_def .
qed

subsection \<open>The steps of the loop body\<close>

lemma assign_simps [simp]:
  "store (assign i d s) = (store s)[i := d]"
  "emitted (assign i d s) = emitted s"
  "last_author (assign i d s) = last_author s"
  "client (assign i d s) = client s"
  by (simp_all add: assign_def)

lemma yield_simps [simp]:
  "store (yield m s) = store s"
  "emitted (yield m s) = emitted s @ [(m, store s)]"
  "last_author (yield m s) = last_author s"
  "client (yield m s) = client s"
  by (simp_all add: yield_def)

lemma map_of_setitem: "map_of (setitem k v d) k' = (if k' = k then Some v else map_of d k')"
  by (simp add: setitem_def update_conv')

lemma map_of_del_if_present:
  "k' \<noteq> k \<Longrightarrow> map_of (del_if_present k d) k' = map_of d k'"
  by (simp add: del_if_present_def delete_conv')

lemma commit_author:
  "map_of (snd (commit ext d target)) ''author'' = map_of d ''author''"
  by (simp add: commit_def Let_def map_of_setitem split: json.splits sum.splits)

lemma urls_only_commit: "urls_only i (do_commit ext i target)"
  unfolding urls_only_def
proof (intro allI impI)
  fix s :: run assume i: "i < length (store s)"
  obtain r d where c: "commit ext (store s ! i) target = (r, d)"
    by (cases "commit ext (store s ! i) target")
  have a: "map_of d ''author'' = map_of (store s ! i) ''author''"
    using commit_author [of ext "store s ! i" target] c by simp
  show "(\<exists>new. emitted (snd (do_commit ext i target s)) = emitted s @ new
           \<and> list_all (\<lambda>x. (\<exists>u. fst x = Url u i)
                  \<and> map_of (snd x ! i) ''author'' = map_of (store s ! i) ''author'') new)
        \<and> map_of (store (snd (do_commit ext i target s)) ! i) ''author'' = map_of (store s ! i) ''author''
        \<and> length (store (snd (do_commit ext i target s))) = length (store s)
        \<and> last_author (snd (do_commit ext i target s)) = last_author s"
    using c a i by (cases r) (simp_all add: do_commit_def)
qed

lemma urls_only_skip: "urls_only i (\<lambda>s. (e, s))"
  by (simp add: urls_only_def)

lemma urls_only_content: "urls_only i (do_content ext i)"
  unfolding urls_only_def
proof (intro allI impI)
  fix s :: run assume i: "i < length (store s)"
  show "(\<exists>new. emitted (snd (do_content ext i s)) = emitted s @ new
           \<and> list_all (\<lambda>x. (\<exists>u. fst x = Url u i)
                  \<and> map_of (snd x ! i) ''author'' = map_of (store s ! i) ''author'') new)
        \<and> map_of (store (snd (do_content ext i s)) ! i) ''author'' = map_of (store s ! i) ''author''
        \<and> length (store (snd (do_content ext i s))) = length (store s)
        \<and> last_author (snd (do_content ext i s)) = last_author s"
    using urls_only_commit [of i ext, unfolded urls_only_def] i
    by (cases "map_of (store s ! i) ''content''") (simp_all add: do_content_def)
qed

lemma urls_only_flash: "urls_only i (do_flash ext i)"
  unfolding urls_only_def
proof (intro allI impI)
  fix s :: run assume i: "i < length (store s)"
  show "(\<exists>new. emitted (snd (do_flash ext i s)) = emitted s @ new
           \<and> list_all (\<lambda>x. (\<exists>u. fst x = Url u i)
                  \<and> map_of (snd x ! i) ''author'' = map_of (store s ! i) ''author'') new)
        \<and> map_of (store (snd (do_flash ext i s)) ! i) ''author'' = map_of (store s ! i) ''author''
        \<and> length (store (snd (do_flash ext i s))) = length (store s)
        \<and> last_author (snd (do_flash ext i s)) = last_author s"
    using urls_only_commit [of i ext, unfolded urls_only_def] i
    by (cases "map_of (store s ! i) ''flash''") (simp_all add: do_flash_def)
qed

lemma urls_only_videos: "urls_only i (do_videos ext i)"
  unfolding urls_only_def
proof (intro allI impI)
  fix s :: run assume i: "i < length (store s)"
  show "(\<exists>new. emitted (snd (do_videos ext i s)) = emitted s @ new
           \<and> list_all (\<lambda>x. (\<exists>u. fst x = Url u i)
                  \<and> map_of (snd x ! i) ''author'' = map_of (store s ! i) ''author'') new)
        \<and> map_of (store (snd (do_videos ext i s)) ! i) ''author'' = map_of (store s ! i) ''author''
        \<and> length (store (snd (do_videos ext i s))) = length (store s)
        \<and> last_author (snd (do_videos ext i s)) = last_author s"
    using urls_only_commit [of i ext, unfolded urls_only_def] i
    by (cases "map_of (store s ! i) ''videos''") (simp_all add: do_videos_def split: sum.splits)
qed

lemma urls_only_excerpt: "urls_only i (do_excerpt ext srv i)"
  unfolding urls_only_def
proof (intro allI impI)
  fix s :: run assume i: "i < length (store s)"
  let ?goal = "(\<exists>new. emitted (snd (do_excerpt ext srv i s)) = emitted s @ new
           \<and> list_all (\<lambda>x. (\<exists>u. fst x = Url u i)
                  \<and> map_of (snd x ! i) ''author'' = map_of (store s ! i) ''author'') new)
        \<and> map_of (store (snd (do_excerpt ext srv i s)) ! i) ''author'' = map_of (store s ! i) ''author''
        \<and> length (store (snd (do_excerpt ext srv i s))) = length (store s)
        \<and> last_author (snd (do_excerpt ext srv i s)) = last_author s"
  show ?goal
  proof (cases "has_key ''excerpt'' (store s ! i)")
    case False
    then show ?thesis by (simp add: do_excerpt_def)
  next
    case True
    show ?thesis
    proof (cases "lookup (store s ! i) ''deviationid''")
      case (Inl e)
      then show ?thesis using True by (simp add: do_excerpt_def)
    next
      case (Inr deviationid)
      obtain r a where c: "deviation_content srv deviationid (client s) = (r, a)"
        by (cases "deviation_content srv deviationid (client s)")
      show ?thesis
      proof (cases r)
        case (Inl e)
        then show ?thesis using True Inr c by (simp add: do_excerpt_def)
      next
        case dev: (Inr dev)
        define s1 where "s1 = assign i (setitem ''extension'' (JStr ''htm'') (store s ! i)) (s\<lparr>client := a\<rparr>)"
        have s1: "emitted s1 = emitted s" "last_author s1 = last_author s"
          "length (store s1) = length (store s)"
          "map_of (store s1 ! i) ''author'' = map_of (store s ! i) ''author''"
          using i by (simp_all add: s1_def map_of_setitem)
        have d: "do_excerpt ext srv i s =
            (case journal_html ext (store s1 ! i) dev of
               Inl e \<Rightarrow> (Some e, s1)
             | Inr html \<Rightarrow> (None, yield (Url (JStr html) i) s1))"
          unfolding s1_def using True Inr c dev by (simp add: do_excerpt_def Let_def)
        show ?thesis
          unfolding d using s1 by (cases "journal_html ext (store s1 ! i) dev") simp_all
      qed
    qed
  qed
qed

lemma urls_only_html: "urls_only i (do_html i)"
  unfolding urls_only_def by (simp add: do_html_def)

lemma urls_only_and_then:
  assumes "urls_only i f" and "urls_only i g"
  shows "urls_only i (and_then f g)"
  unfolding urls_only_def
proof (intro allI impI)
  fix s :: run assume i: "i < length (store s)"
  obtain e s1 where f: "f s = (e, s1)" by (cases "f s")
  obtain n1 where
    f1: "emitted s1 = emitted s @ n1"
      "list_all (\<lambda>x. (\<exists>u. fst x = Url u i)
          \<and> map_of (snd x ! i) ''author'' = map_of (store s ! i) ''author'') n1"
      "map_of (store s1 ! i) ''author'' = map_of (store s ! i) ''author''"
      "length (store s1) = length (store s)" "last_author s1 = last_author s"
    using assms(1) [unfolded urls_only_def, rule_format, OF i] f by auto
  show "(\<exists>new. emitted (snd (and_then f g s)) = emitted s @ new
           \<and> list_all (\<lambda>x. (\<exists>u. fst x = Url u i)
                  \<and> map_of (snd x ! i) ''author'' = map_of (store s ! i) ''author'') new)
        \<and> map_of (store (snd (and_then f g s)) ! i) ''author'' = map_of (store s ! i) ''author''
        \<and> length (store (snd (and_then f g s))) = length (store s)
        \<and> last_author (snd (and_then f g s)) = last_author s"
  proof (cases e)
    case (Some x)
    then show ?thesis using f f1 by (simp add: and_then_def)
  next
    case None
    have i1: "i < length (store s1)" using i f1(4) by simp
    obtain n2 where
      g2: "emitted (snd (g s1)) = emitted s1 @ n2"
        "list_all (\<lambda>x. (\<exists>u. fst x = Url u i)
            \<and> map_of (snd x ! i) ''author'' = map_of (store s1 ! i) ''author'') n2"
        "map_of (store (snd (g s1)) ! i) ''author'' = map_of (store s1 ! i) ''author''"
        "length (store (snd (g s1))) = length (store s1)" "last_author (snd (g s1)) = last_author s1"
      using assms(2) [unfolded urls_only_def, rule_format, OF i1] by auto
    have a: "and_then f g s = g s1" using f None by (simp add: and_then_def)
    have "emitted (snd (and_then f g s)) = emitted s @ (n1 @ n2)" using a f1(1) g2(1) by simp
    moreover have "list_all (\<lambda>x. (\<exists>u. fst x = Url u i)
            \<and> map_of (snd x ! i) ''author'' = map_of (store s ! i) ''author'') (n1 @ n2)"
      using f1(2) g2(2) f1(3) by simp
    ultimately show ?thesis using a g2 f1 by auto
  qed
qed

lemma urls_only_payloads: "urls_only i (payloads ext srv i)"
  unfolding payloads_def
  by (intro urls_only_and_then urls_only_content urls_only_videos urls_only_flash
      urls_only_excerpt urls_only_html)

lemma process_payloads:
  "process ext srv coll i = and_then (do_prepare coll i) (and_then (do_author i) (payloads ext srv i))"
  by (simp add: process_def payloads_def)

lemma prepare_author: "map_of (snd (prepare d)) ''author'' = map_of d ''author''"
  by (simp add: prepare_def Let_def map_of_setitem map_of_del_if_present
      split: option.splits sum.splits)

lemma self_prepare_author: "map_of (snd (self_prepare coll d)) ''author'' = map_of d ''author''"
  using prepare_author [of d]
  by (cases "prepare d") (auto simp: self_prepare_def map_of_setitem split: option.splits)

lemma do_prepare_frame:
  assumes "i < length (store s)"
  shows "emitted (snd (do_prepare coll i s)) = emitted s"
    and "last_author (snd (do_prepare coll i s)) = last_author s"
    and "length (store (snd (do_prepare coll i s))) = length (store s)"
    and "map_of (store (snd (do_prepare coll i s)) ! i) ''author'' = map_of (store s ! i) ''author''"
  using assms self_prepare_author [of coll "store s ! i"]
  by (cases "self_prepare coll (store s ! i)"; simp add: do_prepare_def)+

lemma do_author_absent:
  assumes "i < length (store s)" and "map_of (store s ! i) ''author'' = None"
      and "last_author s = JNull"
  shows "do_author i s = (None, assign i (setitem ''author'' placeholder_author (store s ! i)) s)"
  using assms by (simp add: do_author_def)

lemma do_author_general:
  "\<exists>new. emitted (snd (do_author i s)) = emitted s @ new \<and> list_all (about i) new
     \<and> length (store (snd (do_author i s))) = length (store s)"
  by (auto simp: do_author_def Let_def about_def split: option.splits)

lemma urls_only_about:
  assumes "urls_only i f" and "i < length (store s)"
  shows "\<exists>new. emitted (snd (f s)) = emitted s @ new \<and> list_all (about i) new
     \<and> length (store (snd (f s))) = length (store s)"
proof -
  from assms obtain new where n: "emitted (snd (f s)) = emitted s @ new"
    "list_all (\<lambda>x. (\<exists>u. fst x = Url u i)
        \<and> map_of (snd x ! i) ''author'' = map_of (store s ! i) ''author'') new"
    "length (store (snd (f s))) = length (store s)"
    unfolding urls_only_def by blast
  have "list_all (about i) new" using n(2) by (auto simp: list_all_iff about_def)
  then show ?thesis using n by blast
qed

lemma process_about:
  assumes "i < length (store s)"
  shows "\<exists>new. emitted (snd (process ext srv coll i s)) = emitted s @ new \<and> list_all (about i) new
     \<and> length (store (snd (process ext srv coll i s))) = length (store s)"
proof -
  obtain e1 s1 where p: "do_prepare coll i s = (e1, s1)" by (cases "do_prepare coll i s")
  have f1: "emitted s1 = emitted s" "length (store s1) = length (store s)"
    using do_prepare_frame [OF assms, of coll] p by simp_all
  show ?thesis
  proof (cases e1)
    case (Some e)
    then show ?thesis using p f1 by (simp add: process_payloads and_then_def)
  next
    case None
    obtain e2 s2 where a: "do_author i s1 = (e2, s2)" by (cases "do_author i s1")
    obtain n2 where f2: "emitted s2 = emitted s1 @ n2" "list_all (about i) n2"
      "length (store s2) = length (store s1)"
      using do_author_general [of i s1] a by auto
    have e2: "e2 = None" using a by (simp add: do_author_def Let_def split: if_splits)
    have i2: "i < length (store s2)" using assms f1 f2 by simp
    obtain n3 where f3: "emitted (snd (payloads ext srv i s2)) = emitted s2 @ n3"
      "list_all (about i) n3" "length (store (snd (payloads ext srv i s2))) = length (store s2)"
      using urls_only_about [OF urls_only_payloads i2, of ext srv] by blast
    have "process ext srv coll i s = payloads ext srv i s2"
      using p None a e2 by (simp add: process_payloads and_then_def)
    then have "emitted (snd (process ext srv coll i s)) = emitted s @ (n2 @ n3)"
      "list_all (about i) (n2 @ n3)"
      "length (store (snd (process ext srv coll i s))) = length (store s)"
      using f1 f2 f3 by simp_all
    then show ?thesis by blast
  qed
qed

lemma for_each_about:
  assumes "\<forall>i\<in>set ixs. i < length (store s)"
  shows "\<exists>new. emitted (snd (for_each ext srv coll ixs s)) = emitted s @ new
           \<and> list_all (\<lambda>x. \<exists>i\<in>set ixs. about i x) new"
  using assms
proof (induction ixs arbitrary: s)
  case Nil
  then show ?case by simp
next
  case (Cons i ixs)
  obtain e s1 where p: "process ext srv coll i s = (e, s1)" by (cases "process ext srv coll i s")
  obtain n1 where f1: "emitted s1 = emitted s @ n1" "list_all (about i) n1"
    "length (store s1) = length (store s)"
    using process_about [of i s ext srv coll] Cons.prems p by auto
  show ?case
  proof (cases e)
    case (Some x)
    have "emitted (snd (for_each ext srv coll (i # ixs) s)) = emitted s @ n1" using p Some f1 by simp
    moreover have "list_all (\<lambda>x. \<exists>j\<in>set (i # ixs). about j x) n1"
      using f1(2) by (auto simp: list_all_iff)
    ultimately show ?thesis by blast
  next
    case None
    have "\<forall>j\<in>set ixs. j < length (store s1)" using Cons.prems f1(3) by simp
    from Cons.IH [OF this] obtain n2 where
      f2: "emitted (snd (for_each ext srv coll ixs s1)) = emitted s1 @ n2"
        "list_all (\<lambda>x. \<exists>j\<in>set ixs. about j x) n2"
      by blast
    have "emitted (snd (for_each ext srv coll (i # ixs) s)) = emitted s @ (n1 @ n2)"
      using p None f1 f2 by simp
    moreover have "list_all (\<lambda>x. \<exists>j\<in>set (i # ixs). about j x) (n1 @ n2)"
      using f1(2) f2(2) by (auto simp: list_all_iff)
    ultimately show ?thesis by blast
  qed
qed

lemma process_absent:
  assumes "i < length (store s)" and "map_of (store s ! i) ''author'' = None"
      and "last_author s = JNull"
  shows "\<exists>new. emitted (snd (process ext srv coll i s)) = emitted s @ new
           \<and> list_all (\<lambda>x. (\<exists>u. fst x = Url u i)
                  \<and> map_of (snd x ! i) ''author'' = Some placeholder_author) new
           \<and> length (store (snd (process ext srv coll i s))) = length (store s)"
proof -
  obtain e1 s1 where p: "do_prepare coll i s = (e1, s1)" by (cases "do_prepare coll i s")
  have f1: "emitted s1 = emitted s" "length (store s1) = length (store s)"
    "last_author s1 = JNull" "map_of (store s1 ! i) ''author'' = None"
    using do_prepare_frame [OF assms(1), of coll] p assms(2,3) by simp_all
  show ?thesis
  proof (cases e1)
    case (Some e)
    then show ?thesis using p f1 by (simp add: process_payloads and_then_def)
  next
    case None
    define s2 where "s2 = assign i (setitem ''author'' placeholder_author (store s1 ! i)) s1"
    have i1: "i < length (store s1)" using assms(1) f1 by simp
    have a: "do_author i s1 = (None, s2)"
      unfolding s2_def by (rule do_author_absent [OF i1 f1(4) f1(3)])
    have f2: "emitted s2 = emitted s" "length (store s2) = length (store s)"
      "map_of (store s2 ! i) ''author'' = Some placeholder_author"
      using f1 i1 by (simp_all add: s2_def map_of_setitem)
    have i2: "i < length (store s2)" using assms(1) f2 by simp
    obtain n3 where f3: "emitted (snd (payloads ext srv i s2)) = emitted s2 @ n3"
      "list_all (\<lambda>x. (\<exists>u. fst x = Url u i)
          \<and> map_of (snd x ! i) ''author'' = map_of (store s2 ! i) ''author'') n3"
      "length (store (snd (payloads ext srv i s2))) = length (store s2)"
      using urls_only_payloads [of i ext srv, unfolded urls_only_def, rule_format, OF i2] by blast
    have "process ext srv coll i s = payloads ext srv i s2"
      using p None a by (simp add: process_payloads and_then_def)
    then show ?thesis using f2 f3 by auto
  qed
qed

lemma nothing_before:
  assumes "ms = pre @ post" and "\<forall>m\<in>set pre. P m" and "\<forall>m\<in>set post. m \<noteq> t"
      and "k < length ms" and "ms ! k = t" and "j < k"
  shows "P (ms ! j)"
proof -
  have "k < length pre"
  proof (rule ccontr)
    assume "\<not> k < length pre"
    then have "ms ! k \<in> set post" using assms(1,4) by (simp add: nth_append)
    then show False using assms(3,5) by blast
  qed
  then have "ms ! j = pre ! j" "j < length pre" using assms(1,6) by (simp_all add: nth_append)
  then show ?thesis using assms(2) by (metis nth_mem)
qed

text \<open>
  Claim C9.  When the first record has no \<open>author\<close>, no \<^verbatim>\<open>Directory\<close> message
  stands anywhere before a \<^verbatim>\<open>Url\<close> message of that record (the comparison is
  \<^verbatim>\<open>None != None\<close>), although the record carries the placeholder author in every
  \<^verbatim>\<open>Url\<close> message yielded for it.
\<close>

theorem first_record_without_author:
  assumes "map_of d ''author'' = None"
      and "r = snd (items ext srv coll (d # rest) source_end st)"
  shows "(\<forall>k u. k < length (messages r) \<and> messages r ! k = Url u 0
            \<longrightarrow> (\<forall>j<k. \<forall>i. messages r ! j \<noteq> Directory i))
       \<and> (\<forall>x\<in>set (emitted r). (\<exists>u. fst x = Url u 0)
            \<longrightarrow> map_of (snd x ! 0) ''author'' = Some placeholder_author)"
proof -
  define s0 where "s0 = yield (Version 1)
      \<lparr>store = d # rest, client = st, last_author = JNull, emitted = []\<rparr>"
  have s0: "emitted s0 = [(Version 1, d # rest)]" "store s0 = d # rest" "last_author s0 = JNull"
    by (simp_all add: s0_def)
  define ixs where "ixs = [1..<Suc (length rest)]"
  have up: "[0..<length (d # rest)] = 0 # ixs"
    by (simp del: upt_Suc add: ixs_def upt_conv_Cons)
  obtain e s1 where p: "process ext srv coll 0 s0 = (e, s1)" by (cases "process ext srv coll 0 s0")
  obtain n0 where f0: "emitted s1 = emitted s0 @ n0"
    "list_all (\<lambda>x. (\<exists>u. fst x = Url u 0)
        \<and> map_of (snd x ! 0) ''author'' = Some placeholder_author) n0"
    "length (store s1) = length (store s0)"
    using process_absent [of 0 s0 ext srv coll] p assms(1) s0 by auto
  have r: "r = snd (case for_each ext srv coll (0 # ixs) s0 of
                      (Some e, s) \<Rightarrow> (Raised e, s)
                    | (None, s) \<Rightarrow>
                        (case source_end of None \<Rightarrow> (Returned, s) | Some e \<Rightarrow> (Raised e, s)))"
    unfolding assms(2) items_def Let_def up s0_def ..
  have "\<exists>n1. emitted r = (Version 1, d # rest) # n0 @ n1
          \<and> list_all (\<lambda>x. \<exists>i\<in>set ixs. about i x) n1"
  proof (cases e)
    case (Some x)
    have "r = s1" using r p Some by simp
    then show ?thesis using f0 s0 by simp
  next
    case None
    have "\<forall>j\<in>set ixs. j < length (store s1)" using f0(3) s0 by (auto simp: ixs_def)
    from for_each_about [OF this, of ext srv coll] obtain n1 where
      f1: "emitted (snd (for_each ext srv coll ixs s1)) = emitted s1 @ n1"
        "list_all (\<lambda>x. \<exists>i\<in>set ixs. about i x) n1"
      by blast
    have "r = snd (for_each ext srv coll ixs s1)"
      using r p None by (simp split: prod.splits option.splits)
    then show ?thesis using f0 f1 s0 by simp
  qed
  then obtain n1 where e: "emitted r = (Version 1, d # rest) # n0 @ n1"
    and l1: "list_all (\<lambda>x. \<exists>i\<in>set ixs. about i x) n1"
    by blast
  have later: "fst x \<noteq> Url u 0" if "x \<in> set n1" for x u
  proof -
    from l1 that obtain i where "i \<in> set ixs" "about i x" by (auto simp: list_all_iff)
    then show ?thesis by (auto simp: ixs_def about_def)
  qed
  have ms: "messages r = (Version 1 # map fst n0) @ map fst n1" using e by (simp add: messages_def)
  have pre: "\<forall>m\<in>set (Version 1 # map fst n0). \<forall>i. m \<noteq> Directory i"
    using f0(2) by (auto simp: list_all_iff)
  have "messages r ! j \<noteq> Directory i"
    if "k < length (messages r)" "messages r ! k = Url u 0" "j < k" for k u j i
  proof -
    have "\<forall>m\<in>set (map fst n1). m \<noteq> Url u 0" using later by auto
    from nothing_before [OF ms pre this that] show ?thesis by blast
  qed
  moreover have "map_of (snd x ! 0) ''author'' = Some placeholder_author"
    if "x \<in> set (emitted r)" "fst x = Url u 0" for x u
  proof -
    have "x \<in> set n0 \<or> x \<in> set n1 \<or> x = (Version 1, d # rest)" using that(1) e by auto
    moreover have "x \<notin> set n1" using later [of x u] that(2) by blast
    moreover have "x \<noteq> (Version 1, d # rest)" using that(2) by auto
    ultimately have "x \<in> set n0" by blast
    then show ?thesis using f0(2) by (auto simp: list_all_iff)
  qed
  ultimately show ?thesis by blast
qed

subsection \<open>Runs of the examples\<close>

lemmas pipeline_defs =
  items_def process_def and_then_def do_prepare_def self_prepare_def prepare_def
  del_if_present_def has_key_def rsplit1_def subscript_def setitem_def do_author_def assign_def
  yield_def do_content_def do_commit_def commit_def lookup_def do_videos_def do_flash_def
  do_excerpt_def do_html_def messages_def placeholder_author_def journal_html_def
  format_value_def

lemmas example_defs =
  example_externals_def after_last_def escape_char_def journal_server_def token_response_def
  api_init_def anonymous_image_def anonymous_journal_def

lemma deviation_content_journal_server:
  "fst (deviation_content journal_server deviationid (api_init m))
     = Inr (JObj [(''html'', JStr ''<p>Hello</p>'')])"
  by (simp add: deviation_content_def call_def call_loop.simps authenticate_def
      authenticate_impl_def cache_def authenticate_impl_body_def Let_def example_defs)

text \<open>
  Claim C1 (one \<^verbatim>\<open>Directory\<close> message for every maximal run of records with equal
  authors, right before the run's first \<^verbatim>\<open>Url\<close> message, also for records without
  an author).  The code does not do this for a run of records without an author at the
  start of the stream: for the two such records below it yields their two \<^verbatim>\<open>Url\<close>
  messages and no \<^verbatim>\<open>Directory\<close> message at all.
\<close>

theorem anonymous_run_has_no_directory:
  "messages (snd (items example_externals journal_server None
                    [anonymous_image, anonymous_journal] None (api_init ''true'')))
     = [Version 1,
        Url (JStr ''https://img/a.jpg'') 0,
        Url (JStr (journal_document ''Q &amp; A'' [] ''<p>Hello</p>'')) 1]"
proof -
  obtain dev a where d: "deviation_content journal_server (JStr ''D2'') (api_init ''true'') = (dev, a)"
    by (cases "deviation_content journal_server (JStr ''D2'') (api_init ''true'')")
  have dev: "dev = Inr (JObj [(''html'', JStr ''<p>Hello</p>'')])"
    using deviation_content_journal_server [of "JStr ''D2''" "''true''"] d by simp
  have up: "[0..<length [anonymous_image, anonymous_journal]] = [0, 1]"
    by (simp add: upt_conv_Cons del: upt_Suc)
  show ?thesis
    unfolding items_def up
    using d dev
    by (simp add: pipeline_defs py_format_journal example_externals_def after_last_def
        escape_char_def anonymous_image_def anonymous_journal_def)
qed

text \<open>
  Claim C8 (a record with only an \<open>excerpt\<close> yields, after \<^verbatim>\<open>Version\<close>, one
  \<^verbatim>\<open>Directory\<close> and one \<^verbatim>\<open>Url\<close> message with the journal document).  For a
  journal without an author the code yields the \<^verbatim>\<open>Url\<close> message alone: the
  \<^verbatim>\<open>Directory\<close> message is missing for the reason of claim C1.
\<close>

theorem anonymous_journal_has_no_directory:
  "messages (snd (items example_externals journal_server None [anonymous_journal] None
                    (api_init ''true'')))
     = [Version 1, Url (JStr (journal_document ''Q &amp; A'' [] ''<p>Hello</p>'')) 0]"
proof -
  obtain dev a where d: "deviation_content journal_server (JStr ''D2'') (api_init ''true'') = (dev, a)"
    by (cases "deviation_content journal_server (JStr ''D2'') (api_init ''true'')")
  have dev: "dev = Inr (JObj [(''html'', JStr ''<p>Hello</p>'')])"
    using deviation_content_journal_server [of "JStr ''D2''" "''true''"] d by simp
  show ?thesis
    using d dev
    by (simp add: pipeline_defs py_format_journal example_externals_def after_last_def
        escape_char_def anonymous_journal_def)
qed

lemma anonymous_image_run:
  "emitted (snd (items example_externals journal_server None [anonymous_image] None (api_init ''true'')))
     = [(Version 1, [anonymous_image]),
        (Url (JStr ''https://img/a.jpg'') 0,
         [[(''deviationid'', JStr ''D1''),
           (''url'', JStr ''https://sta.sh/art/Title-123''),
           (''title'', JStr ''Title''),
           (''content'', JObj [(''src'', JStr ''https://img/a.jpg'')]),
           (''index'', JStr ''123''),
           (''author'', placeholder_author),
           (''target'', JObj [(''src'', JStr ''https://img/a.jpg''),
                              (''filename'', JStr ''a.jpg''), (''extension'', JStr ''jpg'')]),
           (''extension'', JStr ''jpg'')]])]"
  by (simp add: pipeline_defs example_externals_def after_last_def anonymous_image_def)

theorem first_record_without_author_witness:
  "messages (snd (items example_externals journal_server None [anonymous_image] None
                    (api_init ''true''))) ! 1 = Url (JStr ''https://img/a.jpg'') 0
   \<and> messages (snd (items example_externals journal_server None [anonymous_image] None
                    (api_init ''true''))) ! 0 \<noteq> Directory 0
   \<and> map_of (snd (emitted (snd (items example_externals journal_server None [anonymous_image] None
                    (api_init ''true''))) ! 1) ! 0) ''author'' = Some placeholder_author"
proof -
  define r where "r = snd (items example_externals journal_server None [anonymous_image] None
                    (api_init ''true''))"
  have a: "map_of anonymous_image ''author'' = None" by (simp add: anonymous_image_def)
  note t = first_record_without_author [OF a r_def]
  note er = anonymous_image_run [folded r_def]
  have m: "messages r = [Version 1, Url (JStr ''https://img/a.jpg'') 0]"
    by (simp add: messages_def er)
  have f: "fst (emitted r ! 1) = Url (JStr ''https://img/a.jpg'') 0" by (simp add: er)
  have "messages r ! 0 \<noteq> Directory 0"
    using t [THEN conjunct1, rule_format, of 1 "JStr ''https://img/a.jpg''" 0 0] m by simp
  moreover have "emitted r ! 1 \<in> set (emitted r)" by (simp add: er)
  then have "map_of (snd (emitted r ! 1) ! 0) ''author'' = Some placeholder_author"
    using t [THEN conjunct2, rule_format, of "emitted r ! 1"] f by blast
  ultimately show ?thesis using m unfolding r_def by simp
qed

subsection \<open>The record shared by the messages\<close>

text \<open>
  The steps of the loop body leave the keys \<open>content\<close>, \<open>videos\<close>, \<open>flash\<close>
  and \<open>excerpt\<close> of the record as they are; a commit that raises yields nothing.
\<close>

lemma commit_keeps:
  "k \<noteq> ''target'' \<Longrightarrow> k \<noteq> ''extension'' \<Longrightarrow> map_of (snd (commit ext d target)) k = map_of d k"
  by (simp add: commit_def Let_def map_of_setitem split: json.splits sum.splits)

lemma prepare_keeps:
  assumes "k \<noteq> ''index''" "k \<noteq> ''stats''" "k \<noteq> ''preview''" "k \<noteq> ''thumbs''"
  shows "map_of (snd (prepare d)) k = map_of d k"
  using assms
  by (simp add: prepare_def Let_def map_of_setitem map_of_del_if_present
      split: option.splits sum.splits)

lemma self_prepare_keeps:
  assumes "k \<noteq> ''index''" "k \<noteq> ''stats''" "k \<noteq> ''preview''" "k \<noteq> ''thumbs''" "k \<noteq> ''collection''"
  shows "map_of (snd (self_prepare coll d)) k = map_of d k"
  using prepare_keeps [OF assms(1-4), of d] assms(5)
  by (cases "prepare d") (auto simp: self_prepare_def map_of_setitem split: option.splits)

lemma committed_cong:
  assumes "map_of d' ''content'' = map_of d ''content''"
      and "map_of d' ''videos'' = map_of d ''videos''"
      and "map_of d' ''flash'' = map_of d ''flash''"
  shows "committed d' = committed d"
  using assms by (simp add: committed_def)

lemma commits_seen_skip: "commits_seen ext i [] s s"
  by (simp add: commits_seen_def)

lemma do_commit_seen:
  assumes "i < length (store s)" and "do_commit ext i target s = (None, s')"
  shows "commits_seen ext i [target] s s'"
proof -
  obtain r d where c: "commit ext (store s ! i) target = (r, d)"
    by (cases "commit ext (store s ! i) target")
  from assms(2) c obtain url where r: "r = Inr url" and s': "s' = yield (Url url i) (assign i d s)"
    by (cases r) (auto simp: do_commit_def)
  from c r obtain t data x where t: "target = JObj t" "lookup t ''src'' = Inr url"
    "nameext_from_url ext url t = Inr data" "getitem data ''extension'' = Inr x"
    "d = setitem ''extension'' x (setitem ''target'' data (store s ! i))"
    by (auto simp: commit_def Let_def split: json.splits sum.splits)
  have h: "holds ext d target"
    using t by (simp add: holds_def lookup_def map_of_setitem target_data_def target_extension_def)
  have u: "payload_src target = url" using t by (simp add: payload_src_def)
  have k: "\<forall>k. k \<noteq> ''target'' \<and> k \<noteq> ''extension'' \<longrightarrow> map_of d k = map_of (store s ! i) k"
    using commit_keeps [of _ ext "store s ! i" target] c by simp
  have e: "emitted s' = emitted s @ [(Url url i, store s')]" using s' by simp
  have st: "store s' = (store s)[i := d]" using s' by simp
  have n: "store s' ! i = d" using st assms(1) by simp
  show ?thesis
    unfolding commits_seen_def
  proof (intro conjI)
    show "length (store s') = length (store s)" using st by simp
    show "\<forall>k. k \<noteq> ''target'' \<and> k \<noteq> ''extension'' \<longrightarrow> map_of (store s' ! i) k = map_of (store s ! i) k"
      using k n by simp
    show "\<exists>new. emitted s' = emitted s @ new
            \<and> map fst new = map (\<lambda>t. Url (payload_src t) i) [target]
            \<and> list_all2 (\<lambda>t x. holds ext (snd x ! i) t) [target] new"
      using e u h n by simp
    show "if [target] = [] then store s' = store s else holds ext (store s' ! i) (last [target])"
      using h n by simp
  qed
qed

lemma commits_seen_append:
  assumes "commits_seen ext i ts1 s s1" and "commits_seen ext i ts2 s1 s2"
  shows "commits_seen ext i (ts1 @ ts2) s s2"
proof -
  from assms(1) obtain n1 where a:
    "length (store s1) = length (store s)"
    "\<forall>k. k \<noteq> ''target'' \<and> k \<noteq> ''extension'' \<longrightarrow> map_of (store s1 ! i) k = map_of (store s ! i) k"
    "emitted s1 = emitted s @ n1"
    "map fst n1 = map (\<lambda>t. Url (payload_src t) i) ts1"
    "list_all2 (\<lambda>t x. holds ext (snd x ! i) t) ts1 n1"
    "if ts1 = [] then store s1 = store s else holds ext (store s1 ! i) (last ts1)"
    unfolding commits_seen_def by blast
  from assms(2) obtain n2 where b:
    "length (store s2) = length (store s1)"
    "\<forall>k. k \<noteq> ''target'' \<and> k \<noteq> ''extension'' \<longrightarrow> map_of (store s2 ! i) k = map_of (store s1 ! i) k"
    "emitted s2 = emitted s1 @ n2"
    "map fst n2 = map (\<lambda>t. Url (payload_src t) i) ts2"
    "list_all2 (\<lambda>t x. holds ext (snd x ! i) t) ts2 n2"
    "if ts2 = [] then store s2 = store s1 else holds ext (store s2 ! i) (last ts2)"
    unfolding commits_seen_def by blast
  show ?thesis
    unfolding commits_seen_def
  proof (intro conjI)
    show "length (store s2) = length (store s)" using a(1) b(1) by simp
    show "\<forall>k. k \<noteq> ''target'' \<and> k \<noteq> ''extension'' \<longrightarrow> map_of (store s2 ! i) k = map_of (store s ! i) k"
      using a(2) b(2) by simp
    have "emitted s2 = emitted s @ (n1 @ n2)" using a(3) b(3) by simp
    moreover have "map fst (n1 @ n2) = map (\<lambda>t. Url (payload_src t) i) (ts1 @ ts2)"
      using a(4) b(4) by simp
    moreover have "list_all2 (\<lambda>t x. holds ext (snd x ! i) t) (ts1 @ ts2) (n1 @ n2)"
      using a(5) b(5) by (rule list_all2_appendI)
    ultimately show "\<exists>new. emitted s2 = emitted s @ new
            \<and> map fst new = map (\<lambda>t. Url (payload_src t) i) (ts1 @ ts2)
            \<and> list_all2 (\<lambda>t x. holds ext (snd x ! i) t) (ts1 @ ts2) new"
      by blast
    show "if ts1 @ ts2 = [] then store s2 = store s else holds ext (store s2 ! i) (last (ts1 @ ts2))"
      using a(6) b(6) by (cases "ts2 = []") (auto split: if_splits)
  qed
qed

lemma do_content_seen:
  assumes "i < length (store s)" and "do_content ext i s = (None, s')"
  shows "commits_seen ext i (case map_of (store s ! i) ''content'' of None \<Rightarrow> [] | Some c \<Rightarrow> [c]) s s'"
proof (cases "map_of (store s ! i) ''content''")
  case None
  then show ?thesis using assms(2) commits_seen_skip by (simp add: do_content_def)
next
  case (Some c)
  then show ?thesis using assms do_commit_seen [of i s ext c s'] by (simp add: do_content_def)
qed

lemma do_flash_seen:
  assumes "i < length (store s)" and "do_flash ext i s = (None, s')"
  shows "commits_seen ext i (case map_of (store s ! i) ''flash'' of None \<Rightarrow> [] | Some c \<Rightarrow> [c]) s s'"
proof (cases "map_of (store s ! i) ''flash''")
  case None
  then show ?thesis using assms(2) commits_seen_skip by (simp add: do_flash_def)
next
  case (Some c)
  then show ?thesis using assms do_commit_seen [of i s ext c s'] by (simp add: do_flash_def)
qed

lemma do_videos_seen:
  assumes "i < length (store s)" and "do_videos ext i s = (None, s')"
  shows "commits_seen ext i
           (case map_of (store s ! i) ''videos'' of
              None \<Rightarrow> []
            | Some vs \<Rightarrow> (case select_video vs of Inl e \<Rightarrow> [] | Inr v \<Rightarrow> [v])) s s'"
proof (cases "map_of (store s ! i) ''videos''")
  case None
  then show ?thesis using assms(2) commits_seen_skip by (simp add: do_videos_def)
next
  case (Some vs)
  show ?thesis
  proof (cases "select_video vs")
    case (Inl e)
    then show ?thesis using assms(2) Some by (simp add: do_videos_def)
  next
    case (Inr v)
    then show ?thesis using assms Some do_commit_seen [of i s ext v s'] by (simp add: do_videos_def)
  qed
qed

lemma do_prepare_keeps:
  assumes "i < length (store s)"
      and "k \<noteq> ''index''" "k \<noteq> ''stats''" "k \<noteq> ''preview''" "k \<noteq> ''thumbs''" "k \<noteq> ''collection''"
  shows "map_of (store (snd (do_prepare coll i s)) ! i) k = map_of (store s ! i) k"
  using assms(1) self_prepare_keeps [OF assms(2-6), of coll "store s ! i"]
  by (cases "self_prepare coll (store s ! i)") (simp add: do_prepare_def)

lemma do_author_keeps:
  assumes "i < length (store s)" and "k \<noteq> ''author''"
  shows "map_of (store (snd (do_author i s)) ! i) k = map_of (store s ! i) k"
    and "length (store (snd (do_author i s))) = length (store s)"
    and "\<exists>dir. emitted (snd (do_author i s)) = emitted s @ dir
           \<and> (dir = [] \<or> (\<exists>st. dir = [(Directory i, st)]))"
  using assms by (auto simp: do_author_def Let_def map_of_setitem split: option.splits)

lemma and_then_assoc: "and_then (and_then f g) h = and_then f (and_then g h)"
  by (rule ext) (simp add: and_then_def split: prod.splits option.splits)

lemma process_grouped:
  "process ext srv coll i =
     and_then (do_prepare coll i)
    (and_then (do_author i)
    (and_then (and_then (do_content ext i) (and_then (do_videos ext i) (do_flash ext i)))
              (and_then (do_excerpt ext srv i) (do_html i))))"
  by (simp add: process_def and_then_assoc)

lemma do_commit_raised: "do_commit ext i target s = (Some e, s') \<Longrightarrow> emitted s' = emitted s"
  by (auto simp: do_commit_def split: prod.splits sum.splits)

lemma do_content_raised: "do_content ext i s = (Some e, s') \<Longrightarrow> emitted s' = emitted s"
  by (auto simp: do_content_def do_commit_raised split: option.splits)

lemma do_flash_raised: "do_flash ext i s = (Some e, s') \<Longrightarrow> emitted s' = emitted s"
  by (auto simp: do_flash_def do_commit_raised split: option.splits)

lemma do_videos_raised: "do_videos ext i s = (Some e, s') \<Longrightarrow> emitted s' = emitted s"
  by (auto simp: do_videos_def do_commit_raised split: option.splits sum.splits)

lemma commits_seen_new:
  assumes "commits_seen ext i ts s s'"
  shows "\<exists>new. emitted s' = emitted s @ new
           \<and> map fst new = map (\<lambda>t. Url (payload_src t) i) ts
           \<and> list_all2 (\<lambda>t x. holds ext (snd x ! i) t) ts new"
  using assms unfolding commits_seen_def by blast

lemma three_commits_outcome:
  assumes "i < length (store s)"
      and "and_then (do_content ext i) (and_then (do_videos ext i) (do_flash ext i)) s = (e, s3)"
  shows "\<exists>ts new. emitted s3 = emitted s @ new
           \<and> prefix ts (committed (store s ! i))
           \<and> map fst new = map (\<lambda>t. Url (payload_src t) i) ts
           \<and> list_all2 (\<lambda>t x. holds ext (snd x ! i) t) ts new
           \<and> (e = None \<longrightarrow> ts = committed (store s ! i)
                  \<and> commits_seen ext i (committed (store s ! i)) s s3)"
proof -
  let ?P1 = "case map_of (store s ! i) ''content'' of None \<Rightarrow> [] | Some c \<Rightarrow> [c]"
  let ?P2 = "case map_of (store s ! i) ''videos'' of
               None \<Rightarrow> []
             | Some vs \<Rightarrow> (case select_video vs of Inl e \<Rightarrow> [] | Inr v \<Rightarrow> [v])"
  let ?P3 = "case map_of (store s ! i) ''flash'' of None \<Rightarrow> [] | Some c \<Rightarrow> [c]"
  have C: "committed (store s ! i) = ?P1 @ ?P2 @ ?P3" by (simp add: committed_def)
  obtain e1 s1 where p1: "do_content ext i s = (e1, s1)" by (cases "do_content ext i s")
  show ?thesis
  proof (cases e1)
    case (Some x)
    then have "e = Some x" "s3 = s1" using assms(2) p1 by (simp_all add: and_then_def)
    moreover have "emitted s1 = emitted s" using do_content_raised p1 Some by blast
    ultimately show ?thesis by (intro exI [of _ "[]"]) simp
  next
    case None
    note a = do_content_seen [OF assms(1) p1 [unfolded None]]
    have l1: "length (store s1) = length (store s)"
      and k1: "\<forall>k. k \<noteq> ''target'' \<and> k \<noteq> ''extension'' \<longrightarrow> map_of (store s1 ! i) k = map_of (store s ! i) k"
      using a unfolding commits_seen_def by blast+
    have i1: "i < length (store s1)" using l1 assms(1) by simp
    have v: "map_of (store s1 ! i) ''videos'' = map_of (store s ! i) ''videos''" using k1 by simp
    obtain e2 s2 where p2: "do_videos ext i s1 = (e2, s2)" by (cases "do_videos ext i s1")
    have r2: "and_then (do_videos ext i) (do_flash ext i) s1 = (e, s3)"
      using assms(2) p1 None by (simp add: and_then_def)
    show ?thesis
    proof (cases e2)
      case (Some x)
      then have es: "e = Some x" "s3 = s2" using r2 p2 by (simp_all add: and_then_def)
      have "emitted s2 = emitted s1" using do_videos_raised p2 Some by blast
      then obtain new where n: "emitted s3 = emitted s @ new"
        "map fst new = map (\<lambda>t. Url (payload_src t) i) ?P1"
        "list_all2 (\<lambda>t x. holds ext (snd x ! i) t) ?P1 new"
        using commits_seen_new [OF a] es by auto
      have "prefix ?P1 (committed (store s ! i))" unfolding C by simp
      then show ?thesis using n es by blast
    next
      case e2: None
      note b = do_videos_seen [OF i1 p2 [unfolded e2], unfolded v]
      have l2: "length (store s2) = length (store s1)"
        and k2: "\<forall>k. k \<noteq> ''target'' \<and> k \<noteq> ''extension'' \<longrightarrow> map_of (store s2 ! i) k = map_of (store s1 ! i) k"
        using b unfolding commits_seen_def by blast+
      have i2: "i < length (store s2)" using l2 i1 by simp
      have f: "map_of (store s2 ! i) ''flash'' = map_of (store s ! i) ''flash''" using k1 k2 by simp
      have r3: "do_flash ext i s2 = (e, s3)" using r2 p2 e2 by (simp add: and_then_def)
      note ab = commits_seen_append [OF a b]
      show ?thesis
      proof (cases e)
        case (Some x)
        have "emitted s3 = emitted s2" using do_flash_raised r3 Some by blast
        then obtain new where n: "emitted s3 = emitted s @ new"
          "map fst new = map (\<lambda>t. Url (payload_src t) i) (?P1 @ ?P2)"
          "list_all2 (\<lambda>t x. holds ext (snd x ! i) t) (?P1 @ ?P2) new"
          using commits_seen_new [OF ab] by auto
        have "prefix (?P1 @ ?P2) (committed (store s ! i))" unfolding C by simp
        then show ?thesis using n Some by blast
      next
        case e3: None
        note c = do_flash_seen [OF i2 r3 [unfolded e3], unfolded f]
        have all: "commits_seen ext i (committed (store s ! i)) s s3"
          unfolding C using commits_seen_append [OF a commits_seen_append [OF b c]] by simp
        from commits_seen_new [OF all] obtain new where n: "emitted s3 = emitted s @ new"
          "map fst new = map (\<lambda>t. Url (payload_src t) i) (committed (store s ! i))"
          "list_all2 (\<lambda>t x. holds ext (snd x ! i) t) (committed (store s ! i)) new"
          by blast
        have "prefix (committed (store s ! i)) (committed (store s ! i))" by simp
        then show ?thesis using n all by blast
      qed
    qed
  qed
qed

lemma do_excerpt_outcome:
  "\<exists>rest. emitted (snd (do_excerpt ext srv i s)) = emitted s @ rest
     \<and> (rest = [] \<or> (\<exists>html st. rest = [(Url (JStr html) i, st)]))
     \<and> (\<not> has_key ''excerpt'' (store s ! i) \<longrightarrow> do_excerpt ext srv i s = (None, s))"
proof (cases "has_key ''excerpt'' (store s ! i)")
  case False
  then show ?thesis by (simp add: do_excerpt_def)
next
  case True
  show ?thesis
  proof (cases "lookup (store s ! i) ''deviationid''")
    case (Inl e)
    then show ?thesis using True by (simp add: do_excerpt_def)
  next
    case (Inr did)
    obtain r a where d: "deviation_content srv did (client s) = (r, a)"
      by (cases "deviation_content srv did (client s)")
    show ?thesis
    proof (cases r)
      case (Inl e)
      then show ?thesis using True Inr d by (simp add: do_excerpt_def)
    next
      case dev: (Inr dev)
      let ?s1 = "assign i (setitem ''extension'' (JStr ''htm'') (store s ! i)) (s\<lparr>client := a\<rparr>)"
      show ?thesis
      proof (cases "journal_html ext (store ?s1 ! i) dev")
        case (Inl e)
        then show ?thesis using True Inr d dev by (simp add: do_excerpt_def Let_def)
      next
        case html: (Inr html)
        then show ?thesis using True Inr d dev by (simp add: do_excerpt_def Let_def)
      qed
    qed
  qed
qed

lemma tail_outcome:
  "\<exists>rest. emitted (snd (and_then (do_excerpt ext srv i) (do_html i) s)) = emitted s @ rest
     \<and> (rest = [] \<or> (\<exists>html st. rest = [(Url (JStr html) i, st)]))
     \<and> (\<not> has_key ''excerpt'' (store s ! i) \<longrightarrow>
           rest = [] \<and> store (snd (and_then (do_excerpt ext srv i) (do_html i) s)) = store s)"
proof -
  obtain e1 s1 where x: "do_excerpt ext srv i s = (e1, s1)" by (cases "do_excerpt ext srv i s")
  from do_excerpt_outcome [of ext srv i s] x obtain rest where
    r: "emitted s1 = emitted s @ rest" "rest = [] \<or> (\<exists>html st. rest = [(Url (JStr html) i, st)])"
       "\<not> has_key ''excerpt'' (store s ! i) \<longrightarrow> e1 = None \<and> s1 = s"
    by auto
  have h: "emitted (snd (do_html i s1)) = emitted s1" "store (snd (do_html i s1)) = store s1"
    by (simp_all add: do_html_def)
  have t: "emitted (snd (and_then (do_excerpt ext srv i) (do_html i) s)) = emitted s1"
    using x h(1) by (cases e1) (simp_all add: and_then_def)
  have u: "\<not> has_key ''excerpt'' (store s ! i) \<longrightarrow>
             store (snd (and_then (do_excerpt ext srv i) (do_html i) s)) = store s"
    using x r(3) h(2) by (auto simp: and_then_def)
  have v: "\<not> has_key ''excerpt'' (store s ! i) \<longrightarrow> rest = []" using r(1,3) by auto
  show ?thesis using t r(1,2) u v by auto
qed

text \<open>
  Claim C10.  What the loop body yields for the record at position \<open>i\<close>, however it
  ends: the \<^verbatim>\<open>Directory\<close> message if there is one, then one \<^verbatim>\<open>Url\<close> message
  for each payload that was committed, then the message of the journal if there is one.
  Every one of these messages carries the position \<open>i\<close>, that is, the one record
  object.  The committed payloads \<open>ts\<close> are the first of the record's payloads in the
  order content, selected video, flash, and all of them when the body ends without an
  exception; each message has its payload's URL, and when it was yielded the record
  held the \<open>target\<close> and the \<open>extension\<close> of that payload, which the commit of
  the next payload then overwrote.  When the body ends without an exception for a
  record that is no journal, the record holds at the end the \<open>target\<close> and the
  \<open>extension\<close> of the last payload, so whoever kept an earlier message now reads
  the latest payload's values.
\<close>

theorem commits_overwrite_the_shared_record:
  assumes "i < length (store s)"
  shows "\<exists>dir new rest ts.
           emitted (snd (process ext srv coll i s)) = emitted s @ dir @ new @ rest
         \<and> (dir = [] \<or> (\<exists>st. dir = [(Directory i, st)]))
         \<and> (rest = [] \<or> (\<exists>html st. rest = [(Url (JStr html) i, st)]))
         \<and> prefix ts (committed (store s ! i))
         \<and> map fst new = map (\<lambda>t. Url (payload_src t) i) ts
         \<and> list_all2 (\<lambda>t x. holds ext (snd x ! i) t) ts new
         \<and> (fst (process ext srv coll i s) = None \<longrightarrow> ts = committed (store s ! i))
         \<and> (fst (process ext srv coll i s) = None \<and> \<not> has_key ''excerpt'' (store s ! i)
              \<and> committed (store s ! i) \<noteq> [] \<longrightarrow>
                rest = []
                \<and> holds ext (store (snd (process ext srv coll i s)) ! i)
                     (last (committed (store s ! i))))"
proof -
  let ?three = "and_then (do_content ext i) (and_then (do_videos ext i) (do_flash ext i))"
  let ?tail = "and_then (do_excerpt ext srv i) (do_html i)"
  let ?C = "committed (store s ! i)"
  obtain ea sa where pa: "do_prepare coll i s = (ea, sa)" by (cases "do_prepare coll i s")
  have ea: "emitted sa = emitted s" and la: "length (store sa) = length (store s)"
    using do_prepare_frame [OF assms, of coll] pa by simp_all
  show ?thesis
  proof (cases ea)
    case (Some x)
    then have r: "process ext srv coll i s = (Some x, sa)"
      using pa by (simp add: process_grouped and_then_def)
    show ?thesis
      unfolding r using ea
      by (intro exI [of _ "[]"]) simp
  next
    case None
    have ka: "map_of (store sa ! i) k = map_of (store s ! i) k"
      if "k \<noteq> ''index''" "k \<noteq> ''stats''" "k \<noteq> ''preview''" "k \<noteq> ''thumbs''" "k \<noteq> ''collection''"
      for k
      using do_prepare_keeps [OF assms that, of coll] pa by simp
    have ia: "i < length (store sa)" using assms la by simp
    obtain eb sb where pb: "do_author i sa = (eb, sb)" by (cases "do_author i sa")
    have eb: "eb = None" using pb by (simp add: do_author_def Let_def split: if_splits)
    have kb: "map_of (store sb ! i) k = map_of (store sa ! i) k" if "k \<noteq> ''author''" for k
      using do_author_keeps(1) [OF ia that] pb by simp
    have lb: "length (store sb) = length (store sa)"
      using do_author_keeps(2) [OF ia, of "''content''"] pb by simp
    obtain dir where edir: "emitted sb = emitted sa @ dir"
      and dir: "dir = [] \<or> (\<exists>st. dir = [(Directory i, st)])"
      using do_author_keeps(3) [OF ia, of "''content''"] pb by auto
    have ib: "i < length (store sb)" using ia lb by simp
    have c: "committed (store sb ! i) = ?C"
      by (rule committed_cong) (simp_all add: ka kb)
    have xb: "has_key ''excerpt'' (store sb ! i) = has_key ''excerpt'' (store s ! i)"
      by (simp add: has_key_def ka kb)
    obtain e3 s3 where p3: "?three sb = (e3, s3)" by (cases "?three sb")
    from three_commits_outcome [OF ib p3, unfolded c] obtain ts new where
      n: "emitted s3 = emitted sb @ new" "prefix ts ?C"
         "map fst new = map (\<lambda>t. Url (payload_src t) i) ts"
         "list_all2 (\<lambda>t x. holds ext (snd x ! i) t) ts new"
      and full: "e3 = None \<longrightarrow> ts = ?C \<and> commits_seen ext i ?C sb s3"
      by blast
    show ?thesis
    proof (cases e3)
      case (Some x)
      then have r: "process ext srv coll i s = (Some x, s3)"
        using pa None pb eb p3 by (simp add: process_grouped and_then_def)
      have "emitted s3 = emitted s @ dir @ new @ []" using n(1) edir ea by simp
      then show ?thesis
        unfolding r using dir n(2,3,4) by (intro exI [of _ dir] exI [of _ new] exI [of _ "[]"] exI [of _ ts]) simp
    next
      case e3: None
      then have ts: "ts = ?C" and seen: "commits_seen ext i ?C sb s3" using full by simp_all
      have r: "process ext srv coll i s = ?tail s3"
        using pa None pb eb p3 e3 by (simp add: process_grouped and_then_def)
      have k3: "\<forall>k. k \<noteq> ''target'' \<and> k \<noteq> ''extension'' \<longrightarrow> map_of (store s3 ! i) k = map_of (store sb ! i) k"
        and h3: "if ?C = [] then store s3 = store sb else holds ext (store s3 ! i) (last ?C)"
        using seen unfolding commits_seen_def by blast+
      have x3: "has_key ''excerpt'' (store s3 ! i) = has_key ''excerpt'' (store s ! i)"
        using k3 xb by (simp add: has_key_def)
      from tail_outcome [of ext srv i s3] obtain rest where
        t: "emitted (snd (?tail s3)) = emitted s3 @ rest"
           "rest = [] \<or> (\<exists>html st. rest = [(Url (JStr html) i, st)])"
           "\<not> has_key ''excerpt'' (store s3 ! i) \<longrightarrow> rest = [] \<and> store (snd (?tail s3)) = store s3"
        by blast
      have e: "emitted (snd (?tail s3)) = emitted s @ dir @ new @ rest"
        using t(1) n(1) edir ea by simp
      have fin: "\<not> has_key ''excerpt'' (store s ! i) \<and> ?C \<noteq> [] \<longrightarrow>
                   rest = [] \<and> holds ext (store (snd (?tail s3)) ! i) (last ?C)"
        using t(3) x3 h3 by auto
      show ?thesis
        unfolding r using e dir t(2) n(2,3,4) ts fin
        by (intro exI [of _ dir] exI [of _ new] exI [of _ rest] exI [of _ ts]) simp
    qed
  qed
qed

lemma select_video_three_payloads:
  "select_video (JList [video ''360p'', video ''720p'']) = Inr (video ''720p'')"
  by (simp add: select_video_def video_def quality_key_def int_of_string_def strip_def is_space_def
      is_digit_def decimal_def digit_val_def Let_def)

lemma committed_three_payloads:
  "committed three_payloads
     = [JObj [(''src'', JStr ''https://img/c.png'')], video ''720p'',
        JObj [(''src'', JStr ''https://img/c.swf'')]]"
  by (simp add: committed_def three_payloads_def select_video_three_payloads)

lemma three_payloads_process:
  "fst (process example_externals journal_server None 0
          (yield (Version 1)
             \<lparr>store = [three_payloads], client = api_init ''true'', last_author = JNull,
              emitted = []\<rparr>)) = None"
  by (simp add: pipeline_defs example_externals_def after_last_def three_payloads_def
      select_video_three_payloads [unfolded video_def, simplified] video_def)

lemma three_payloads_items:
  "snd (items example_externals journal_server None [three_payloads] None (api_init ''true''))
     = snd (process example_externals journal_server None 0
          (yield (Version 1)
             \<lparr>store = [three_payloads], client = api_init ''true'', last_author = JNull,
              emitted = []\<rparr>))"
  by (simp add: items_def Let_def split: prod.splits option.splits)

theorem commits_overwrite_the_shared_record_witness:
  "\<exists>dir new.
      emitted (snd (items example_externals journal_server None [three_payloads] None
                      (api_init ''true'')))
        = (Version 1, [three_payloads]) # dir @ new
      \<and> (dir = [] \<or> (\<exists>st. dir = [(Directory 0, st)]))
      \<and> map fst new = [Url (JStr ''https://img/c.png'') 0, Url (JStr ''https://v/720p.mp4'') 0,
                        Url (JStr ''https://img/c.swf'') 0]
      \<and> lookup (snd (new ! 0) ! 0) ''extension'' = Inr (JStr ''png'')
      \<and> lookup (snd (new ! 1) ! 0) ''extension'' = Inr (JStr ''mp4'')
      \<and> lookup (snd (new ! 2) ! 0) ''extension'' = Inr (JStr ''swf'')
      \<and> lookup (store (snd (items example_externals journal_server None [three_payloads] None
                              (api_init ''true''))) ! 0) ''target''
          = Inr (JObj [(''src'', JStr ''https://img/c.swf''), (''filename'', JStr ''c.swf''),
                       (''extension'', JStr ''swf'')])"
proof -
  define s0 where "s0 = yield (Version 1)
             \<lparr>store = [three_payloads], client = api_init ''true'', last_author = JNull,
              emitted = []\<rparr>"
  define r where "r = snd (process example_externals journal_server None 0 s0)"
  have it: "snd (items example_externals journal_server None [three_payloads] None (api_init ''true'')) = r"
    unfolding r_def s0_def by (rule three_payloads_items)
  have p: "fst (process example_externals journal_server None 0 s0) = None"
    using three_payloads_process [folded s0_def] .
  have i: "0 < length (store s0)" and d: "store s0 ! 0 = three_payloads"
    and e: "emitted s0 = [(Version 1, [three_payloads])]"
    by (simp_all add: s0_def)
  have x: "\<not> has_key ''excerpt'' three_payloads" by (simp add: has_key_def three_payloads_def)
  let ?C = "[JObj [(''src'', JStr ''https://img/c.png'')], video ''720p'',
               JObj [(''src'', JStr ''https://img/c.swf'')]]"
  from commits_overwrite_the_shared_record [OF i, of example_externals journal_server None,
      folded r_def, unfolded d committed_three_payloads e p]
  obtain dir new rest ts where
    a: "emitted r = [(Version 1, [three_payloads])] @ dir @ new @ rest"
    and b: "dir = [] \<or> (\<exists>st. dir = [(Directory 0, st)])"
    and m: "map fst new = map (\<lambda>t. Url (payload_src t) 0) ts"
    and l: "list_all2 (\<lambda>t x. holds example_externals (snd x ! 0) t) ts new"
    and t0: "None = None \<longrightarrow> ts = ?C"
    and f0: "None = None \<and> \<not> has_key ''excerpt'' three_payloads \<and> ?C \<noteq> [] \<longrightarrow>
               rest = [] \<and> holds example_externals (store r ! 0) (last ?C)"
    by blast
  have ts: "ts = ?C" using t0 by simp
  have rest: "rest = []"
    and f: "holds example_externals (store r ! 0) (JObj [(''src'', JStr ''https://img/c.swf'')])"
    using f0 x by simp_all
  have m': "map fst new = [Url (JStr ''https://img/c.png'') 0, Url (JStr ''https://v/720p.mp4'') 0,
                        Url (JStr ''https://img/c.swf'') 0]"
    using m unfolding ts by (simp add: payload_src_def lookup_def video_def)
  from l [unfolded ts] obtain n0 n1 n2 where n: "new = [n0, n1, n2]"
    and h0: "holds example_externals (snd n0 ! 0) (JObj [(''src'', JStr ''https://img/c.png'')])"
    and h1: "holds example_externals (snd n1 ! 0) (video ''720p'')"
    and h2: "holds example_externals (snd n2 ! 0) (JObj [(''src'', JStr ''https://img/c.swf'')])"
    by (auto simp: list_all2_Cons1)
  have x0: "lookup (snd (new ! 0) ! 0) ''extension'' = Inr (JStr ''png'')"
    using h0 n by (simp add: holds_def target_extension_def target_data_def lookup_def
        example_externals_def after_last_def setitem_def)
  have x1: "lookup (snd (new ! 1) ! 0) ''extension'' = Inr (JStr ''mp4'')"
    using h1 n by (simp add: holds_def target_extension_def target_data_def lookup_def
        example_externals_def after_last_def setitem_def video_def)
  have x2: "lookup (snd (new ! 2) ! 0) ''extension'' = Inr (JStr ''swf'')"
    using h2 n by (simp add: holds_def target_extension_def target_data_def lookup_def
        example_externals_def after_last_def setitem_def)
  have t: "lookup (store r ! 0) ''target''
          = Inr (JObj [(''src'', JStr ''https://img/c.swf''), (''filename'', JStr ''c.swf''),
                       (''extension'', JStr ''swf'')])"
    using f by (simp add: holds_def target_data_def lookup_def example_externals_def after_last_def
        setitem_def)
  have a': "emitted r = (Version 1, [three_payloads]) # dir @ new" using a rest by simp
  show ?thesis
    unfolding it
    by (rule exI [of _ dir], rule exI [of _ new]) (intro conjI a' b m' x0 x1 x2 t)
qed

subsection \<open>Records with a url, and records with an author\<close>

lemma rsplit1_found:
  assumes "c \<in> set s"
  shows "\<exists>pre seg. rsplit1 c s = [pre, seg] \<and> s = pre @ c # seg \<and> c \<notin> set seg"
proof -
  let ?r = "rev s"
  have cr: "c \<in> set ?r" using assms by simp
  define seg where "seg = rev (takeWhile (\<lambda>x. x \<noteq> c) ?r)"
  define pre where "pre = rev (tl (dropWhile (\<lambda>x. x \<noteq> c) ?r))"
  have d: "dropWhile (\<lambda>x. x \<noteq> c) ?r \<noteq> []" using cr by (simp add: dropWhile_eq_Nil_conv)
  have h: "hd (dropWhile (\<lambda>x. x \<noteq> c) ?r) = c" using d hd_dropWhile [of "\<lambda>x. x \<noteq> c" ?r] by simp
  have "?r = takeWhile (\<lambda>x. x \<noteq> c) ?r @ dropWhile (\<lambda>x. x \<noteq> c) ?r" by simp
  also have "dropWhile (\<lambda>x. x \<noteq> c) ?r = c # tl (dropWhile (\<lambda>x. x \<noteq> c) ?r)"
    using d h by (cases "dropWhile (\<lambda>x. x \<noteq> c) ?r") auto
  finally have "rev ?r = rev (takeWhile (\<lambda>x. x \<noteq> c) ?r @ c # tl (dropWhile (\<lambda>x. x \<noteq> c) ?r))"
    by simp
  then have s: "s = pre @ c # seg" by (simp add: pre_def seg_def)
  have n: "c \<notin> set seg"
    unfolding seg_def using set_takeWhileD [of c "\<lambda>x. x \<noteq> c" ?r] by auto
  have "rsplit1 c s = [pre, seg]" using assms by (simp add: rsplit1_def pre_def seg_def)
  then show ?thesis using s n by blast
qed

lemma map_of_stripped:
  "k \<notin> {''stats'', ''preview'', ''thumbs''} \<Longrightarrow> map_of (stripped d) k = map_of d k"
  by (simp add: stripped_def map_of_del_if_present)

lemma prepare_unfold:
  "prepare d =
     (case map_of (stripped d) ''url'' of
        None \<Rightarrow> (None, setitem ''index'' (JInt 0) (stripped d))
      | Some u \<Rightarrow>
          (case rsplit_hyphen u of
             Inl e \<Rightarrow> (Some e, stripped d)
           | Inr parts \<Rightarrow>
               (case subscript parts 1 of
                  Inl e \<Rightarrow> (Some e, stripped d)
                | Inr seg \<Rightarrow> (None, setitem ''index'' (JStr seg) (stripped d)))))"
  unfolding prepare_def stripped_def Let_def ..

text \<open>
  \<^verbatim>\<open>prepare\<close> on the records it is written for.  Without a \<open>url\<close> the index is
  0; with a \<open>url\<close> that is a string with a hyphen, the index is the text after the
  last hyphen, as a string and whatever it is.  In both cases nothing is raised and the
  bulky fields are gone.
\<close>

theorem prepare_sets_index:
  "(map_of d ''url'' = None \<longrightarrow> prepare d = (None, setitem ''index'' (JInt 0) (stripped d)))
   \<and> (map_of d ''url'' = Some (JStr u) \<and> CHR ''-'' \<in> set u \<longrightarrow>
        (\<exists>pre seg. u = pre @ CHR ''-'' # seg \<and> CHR ''-'' \<notin> set seg
           \<and> prepare d = (None, setitem ''index'' (JStr seg) (stripped d))))"
proof (intro conjI impI)
  assume "map_of d ''url'' = None"
  then have "map_of (stripped d) ''url'' = None" by (simp add: map_of_stripped)
  then show "prepare d = (None, setitem ''index'' (JInt 0) (stripped d))"
    by (simp add: prepare_unfold)
next
  assume h: "map_of d ''url'' = Some (JStr u) \<and> CHR ''-'' \<in> set u"
  then have m: "map_of (stripped d) ''url'' = Some (JStr u)" by (simp add: map_of_stripped)
  from h rsplit1_found [of "CHR ''-''" u] obtain pre seg where
    r: "rsplit1 (CHR ''-'') u = [pre, seg]" "u = pre @ CHR ''-'' # seg" "CHR ''-'' \<notin> set seg"
    by blast
  have "prepare d = (None, setitem ''index'' (JStr seg) (stripped d))"
    using m r(1) by (simp add: prepare_unfold subscript_def)
  then show "\<exists>pre seg. u = pre @ CHR ''-'' # seg \<and> CHR ''-'' \<notin> set seg
           \<and> prepare d = (None, setitem ''index'' (JStr seg) (stripped d))"
    using r by blast
qed

theorem prepare_sets_index_witness:
  "prepare [(''stats'', JInt 3), (''title'', JStr ''T'')]
     = (None, [(''title'', JStr ''T''), (''index'', JInt 0)])
   \<and> prepare [(''url'', JStr ''https://www.deviantart.com/art/For-the-sake-10073852'')]
     = (None, [(''url'', JStr ''https://www.deviantart.com/art/For-the-sake-10073852''),
               (''index'', JStr ''10073852'')])"
proof -
  let ?d1 = "[(''stats'', JInt 3), (''title'', JStr ''T'')]"
  let ?u = "''https://www.deviantart.com/art/For-the-sake-10073852''"
  let ?d2 = "[(''url'', JStr ?u)]"
  have a: "map_of ?d1 ''url'' = None" by simp
  have b: "map_of ?d2 ''url'' = Some (JStr ?u) \<and> CHR ''-'' \<in> set ?u" by simp
  from prepare_sets_index [of ?d1 u, THEN conjunct1, rule_format, OF a]
  have 1: "prepare ?d1 = (None, [(''title'', JStr ''T''), (''index'', JInt 0)])"
    by (simp add: stripped_def del_if_present_def has_key_def setitem_def)
  from prepare_sets_index [of ?d2 ?u, THEN conjunct2, rule_format, OF b]
  obtain pre seg where p: "?u = pre @ CHR ''-'' # seg" "CHR ''-'' \<notin> set seg"
    "prepare ?d2 = (None, setitem ''index'' (JStr seg) (stripped ?d2))"
    by blast
  have "rsplit1 (CHR ''-'') ?u = [''https://www.deviantart.com/art/For-the-sake'', ''10073852'']"
    by (simp add: rsplit1_def)
  then have "prepare ?d2 = (None, setitem ''index'' (JStr ''10073852'') (stripped ?d2))"
    by (simp add: prepare_def subscript_def stripped_def del_if_present_def has_key_def)
  with p(3) have "seg = ''10073852''"
    by (simp add: setitem_def stripped_def del_if_present_def has_key_def)
  with p(3) have 2: "prepare ?d2 = (None, [(''url'', JStr ?u), (''index'', JStr ''10073852'')])"
    by (simp add: setitem_def stripped_def del_if_present_def has_key_def)
  from 1 2 show ?thesis by simp
qed

lemma py_eq_JNull: "py_eq a JNull = (a = JNull)"
  by (cases a) simp_all

lemma prepare_succeeds:
  assumes "fst (prepare d) = None"
  shows "\<exists>v. prepare d = (None, setitem ''index'' v (stripped d))"
  using assms by (auto simp: prepare_unfold split: option.splits sum.splits)

lemma journal_html_document:
  assumes "lookup d ''title'' = Inr t" and "text_escape ext t = Inr title"
      and "getitem dev ''html'' = Inr html"
  shows "journal_html ext d dev
           = Inr (journal_document title (journal_css ext dev) (format_value ext html))"
proof -
  from assms(3) obtain dd where dev: "dev = JObj dd" by (cases dev) auto
  show ?thesis
  proof (cases "map_of dd ''css''")
    case None
    then show ?thesis
      using assms dev
      by (simp add: journal_html_def has_key_def py_format_journal journal_css_def format_value_def)
  next
    case (Some c)
    then show ?thesis
      using assms dev
      by (simp add: journal_html_def has_key_def py_format_journal journal_css_def)
  qed
qed

text \<open>
  A journal with an author.  For one record that has an author other than
  \<^verbatim>\<open>None\<close>, an \<open>excerpt\<close> and no other payload, whose normalisation and content
  fetch succeed: \<^verbatim>\<open>items\<close> returns after exactly \<^verbatim>\<open>Version\<close>, \<^verbatim>\<open>Directory\<close>
  and one \<^verbatim>\<open>Url\<close> message whose payload is the journal document with the escaped
  title and the fetched HTML, and the record's extension is \<^verbatim>\<open>htm\<close>.
\<close>

theorem journal_record_messages:
  assumes "map_of d ''author'' = Some a" and "a \<noteq> JNull"
      and "fst (prepare d) = None"
      and "map_of d ''content'' = None" and "map_of d ''videos'' = None"
      and "map_of d ''flash'' = None" and "map_of d ''excerpt'' = Some x"
      and "map_of d ''deviationid'' = Some deviationid" and "map_of d ''title'' = Some t"
      and "text_escape ext t = Inr title"
      and "deviation_content srv deviationid st = (Inr dev, st')"
      and "getitem dev ''html'' = Inr html"
  shows "\<exists>r. items ext srv None [d] None st = (Returned, r)
           \<and> messages r = [Version 1, Directory 0,
                 Url (JStr (journal_document title (journal_css ext dev) (format_value ext html))) 0]
           \<and> lookup (store r ! 0) ''extension'' = Inr (JStr ''htm'')"
proof -
  from prepare_succeeds [OF assms(3)] obtain v where
    p: "prepare d = (None, setitem ''index'' v (stripped d))" by blast
  define d1 where "d1 = setitem ''index'' v (stripped d)"
  have k: "map_of d1 ''author'' = Some a" "map_of d1 ''content'' = None"
    "map_of d1 ''videos'' = None" "map_of d1 ''flash'' = None" "map_of d1 ''excerpt'' = Some x"
    "map_of d1 ''deviationid'' = Some deviationid" "map_of d1 ''title'' = Some t"
    using assms by (simp_all add: d1_def map_of_setitem map_of_stripped)
  define d2 where "d2 = setitem ''extension'' (JStr ''htm'') d1"
  have t: "lookup d2 ''title'' = Inr t" using k by (simp add: d2_def lookup_def map_of_setitem)
  have e: "lookup d2 ''extension'' = Inr (JStr ''htm'')" by (simp add: d2_def lookup_def map_of_setitem)
  note j = journal_html_document [OF t assms(10) assms(12)]
  define s0 where "s0 = yield (Version 1) \<lparr>store = [d], client = st, last_author = JNull, emitted = []\<rparr>"
  have s0: "store s0 = [d]" "client s0 = st" "last_author s0 = JNull" "emitted s0 = [(Version 1, [d])]"
    by (simp_all add: s0_def)
  define s1 where "s1 = assign 0 d1 s0"
  have 1: "do_prepare None 0 s0 = (None, s1)"
    using p s0 by (simp add: do_prepare_def self_prepare_def s1_def d1_def)
  define s2 where "s2 = (yield (Directory 0) s1)\<lparr>last_author := a\<rparr>"
  have 2: "do_author 0 s1 = (None, s2)"
    using k(1) assms(2) s0 by (simp add: do_author_def s1_def s2_def py_eq_JNull)
  have s2: "store s2 = [d1]" "client s2 = st" "emitted s2 = [(Version 1, [d]), (Directory 0, [d1])]"
    using s0 by (simp_all add: s2_def s1_def)
  have 3: "do_content ext 0 s2 = (None, s2)" "do_videos ext 0 s2 = (None, s2)"
    "do_flash ext 0 s2 = (None, s2)"
    using k s2 by (simp_all add: do_content_def do_videos_def do_flash_def)
  define s3 where "s3 = yield (Url (JStr (journal_document title (journal_css ext dev)
      (format_value ext html))) 0) (assign 0 d2 (s2\<lparr>client := st'\<rparr>))"
  have 4: "do_excerpt ext srv 0 s2 = (None, s3)"
    using k s2 assms(11) j
    by (simp add: do_excerpt_def has_key_def lookup_def s3_def d2_def [symmetric])
  have s3: "store s3 = [d2]" "map fst (emitted s3) = [Version 1, Directory 0,
      Url (JStr (journal_document title (journal_css ext dev) (format_value ext html))) 0]"
    using s2 by (simp_all add: s3_def)
  obtain s4 where 5: "do_html 0 s3 = (None, s4)" and s4: "store s4 = store s3" "emitted s4 = emitted s3"
    by (cases "has_key ''html'' (store s3 ! 0)") (simp_all add: do_html_def)
  have "process ext srv None 0 s0 = (None, s4)"
    using 1 2 3 4 5 by (simp add: process_def and_then_def)
  then have "items ext srv None [d] None st = (Returned, s4)"
    by (simp add: items_def s0_def [symmetric])
  then show ?thesis using s3 s4 e by (simp add: messages_def)
qed

theorem journal_record_messages_witness:
  "messages (snd (items example_externals journal_server None [signed_journal] None (api_init ''true'')))
     = [Version 1, Directory 0, Url (JStr (journal_document ''Q &amp; A'' [] ''<p>Hello</p>'')) 0]
   \<and> lookup (store (snd (items example_externals journal_server None [signed_journal] None
                          (api_init ''true''))) ! 0) ''extension'' = Inr (JStr ''htm'')"
proof -
  obtain r st' where c: "deviation_content journal_server (JStr ''D2'') (api_init ''true'') = (r, st')"
    by (cases "deviation_content journal_server (JStr ''D2'') (api_init ''true'')")
  have r: "r = Inr (JObj [(''html'', JStr ''<p>Hello</p>'')])"
    using deviation_content_journal_server [of "JStr ''D2''" "''true''"] c by simp
  have p: "fst (prepare signed_journal) = None"
    by (simp add: prepare_def signed_journal_def anonymous_journal_def del_if_present_def has_key_def
        rsplit1_def subscript_def)
  have esc: "text_escape example_externals (JStr ''Q & A'') = Inr ''Q &amp; A''"
    by (simp add: example_externals_def escape_char_def)
  have css: "journal_css example_externals (JObj [(''html'', JStr ''<p>Hello</p>'')]) = []"
    by (simp add: journal_css_def)
  show ?thesis
    using journal_record_messages [of signed_journal "JObj [(''username'', JStr ''u'')]"
        "JStr ''Hello''" "JStr ''D2''" "JStr ''Q & A''" example_externals "''Q &amp; A''"
        journal_server "api_init ''true''" "JObj [(''html'', JStr ''<p>Hello</p>'')]" st'
        "JStr ''<p>Hello</p>''"]
      p esc c r
    by (auto simp: signed_journal_def anonymous_journal_def css format_value_def)
qed

text \<open>
  The \<^verbatim>\<open>Directory\<close> message of a record with an author.  When normalisation
  succeeds, the messages of the record are a \<^verbatim>\<open>Directory\<close> message exactly if the
  author differs by value from \<open>last_author\<close>, then only \<^verbatim>\<open>Url\<close> messages; and
  \<open>last_author\<close> is the author from then on.
\<close>

theorem directory_when_author_changes:
  assumes "i < length (store s)" and "map_of (store s ! i) ''author'' = Some a"
      and "fst (do_prepare coll i s) = None"
  shows "\<exists>urls :: (message \<times> dict list) list. list_all (\<lambda>x. \<exists>u. fst x = Url u i) urls
           \<and> map fst (emitted (snd (process ext srv coll i s)))
               = map fst (emitted s) @ (if py_eq a (last_author s) then [] else [Directory i])
                 @ map fst urls
           \<and> last_author (snd (process ext srv coll i s))
               = (if py_eq a (last_author s) then last_author s else a)"
proof -
  obtain s1 where p: "do_prepare coll i s = (None, s1)"
    using assms(3) by (cases "do_prepare coll i s") simp
  have f1: "emitted s1 = emitted s" "length (store s1) = length (store s)"
    "last_author s1 = last_author s" "map_of (store s1 ! i) ''author'' = Some a"
    using do_prepare_frame [OF assms(1), of coll] p assms(2) by simp_all
  define s2 where "s2 = (if py_eq a (last_author s) then s1
                         else (yield (Directory i) s1)\<lparr>last_author := a\<rparr>)"
  have a: "do_author i s1 = (None, s2)" using f1 by (simp add: do_author_def s2_def)
  have f2: "map fst (emitted s2)
              = map fst (emitted s) @ (if py_eq a (last_author s) then [] else [Directory i])"
    "length (store s2) = length (store s)"
    "last_author s2 = (if py_eq a (last_author s) then last_author s else a)"
    using f1 by (simp_all add: s2_def)
  have i2: "i < length (store s2)" using assms(1) f2 by simp
  obtain n3 where f3: "emitted (snd (payloads ext srv i s2)) = emitted s2 @ n3"
    "list_all (\<lambda>x. (\<exists>u. fst x = Url u i)
        \<and> map_of (snd x ! i) ''author'' = map_of (store s2 ! i) ''author'') n3"
    "last_author (snd (payloads ext srv i s2)) = last_author s2"
    using urls_only_payloads [of i ext srv, unfolded urls_only_def, rule_format, OF i2] by blast
  have u: "list_all (\<lambda>x. \<exists>u. fst x = Url u i) n3" using f3(2) by (auto simp: list_all_iff)
  have "process ext srv coll i s = payloads ext srv i s2"
    using p a by (simp add: process_payloads and_then_def)
  then have "map fst (emitted (snd (process ext srv coll i s)))
               = map fst (emitted s) @ (if py_eq a (last_author s) then [] else [Directory i])
                 @ map fst n3"
    "last_author (snd (process ext srv coll i s))
               = (if py_eq a (last_author s) then last_author s else a)"
    using f2 f3 by simp_all
  then have "list_all (\<lambda>x. \<exists>u. fst x = Url u i) n3
           \<and> map fst (emitted (snd (process ext srv coll i s)))
               = map fst (emitted s) @ (if py_eq a (last_author s) then [] else [Directory i])
                 @ map fst n3
           \<and> last_author (snd (process ext srv coll i s))
               = (if py_eq a (last_author s) then last_author s else a)"
    using u by simp
  then show ?thesis by (rule exI)
qed

theorem directory_when_author_changes_witness:
  "map fst (emitted (snd (process example_externals journal_server None 0
              (start [image_and_flash] (api_init ''true'')))))
     = [Directory 0, Url (JStr ''https://img/b.png'') 0, Url (JStr ''https://img/b.swf'') 0]
   \<and> last_author (snd (process example_externals journal_server None 0
              (start [image_and_flash] (api_init ''true'')))) = JObj [(''username'', JStr ''u'')]"
proof -
  let ?s = "start [image_and_flash] (api_init ''true'')"
  have i: "0 < length (store ?s)" by (simp add: start_def)
  have a: "map_of (store ?s ! 0) ''author'' = Some (JObj [(''username'', JStr ''u'')])"
    by (simp add: start_def image_and_flash_def)
  have p: "fst (do_prepare None 0 ?s) = None"
    by (simp add: do_prepare_def self_prepare_def prepare_def start_def image_and_flash_def
        del_if_present_def has_key_def rsplit1_def subscript_def)
  have l: "last_author ?s = JNull" "emitted ?s = []" by (simp_all add: start_def)
  have e: "map fst (emitted (snd (process example_externals journal_server None 0 ?s)))
     = [Directory 0, Url (JStr ''https://img/b.png'') 0, Url (JStr ''https://img/b.swf'') 0]"
    by (simp add: pipeline_defs start_def image_and_flash_def example_externals_def after_last_def)
  from directory_when_author_changes [OF i a p, of example_externals journal_server]
  have "last_author (snd (process example_externals journal_server None 0 ?s))
          = JObj [(''username'', JStr ''u'')]"
    using l by auto
  then show ?thesis using e by simp
qed

end
